theory Spec2Isabelle
  imports Complex_Main "HOL-Library.Multiset" "HOL-Library.Log_Nat"
begin

section \<open>JavaScript primitives used by the providers\<close>

text \<open>
  Strings are lists of \<^typ>\<open>char\<close>; a \<^typ>\<open>char\<close> stands for one UTF-16 code unit
  below 256 (the Latin-1 range). Numbers are IEEE doubles, see the section on numbers.
\<close>

definition code :: "char \<Rightarrow> nat" where
  "code c = of_char c"

definition isDigit :: "char \<Rightarrow> bool" where
  "isDigit c = (48 \<le> code c \<and> code c \<le> 57)"

definition isHexDigit :: "char \<Rightarrow> bool" where
  "isHexDigit c =
     (isDigit c \<or> (65 \<le> code c \<and> code c \<le> 70) \<or> (97 \<le> code c \<and> code c \<le> 102))"

text \<open>White space as \<open>\s\<close>, \<open>trim\<close> and \<open>parseInt\<close> see it: TAB, LF, VT, FF, CR,
  SP and NBSP are the white-space code units below 256.\<close>

definition isSpace :: "char \<Rightarrow> bool" where
  "isSpace c = (code c \<in> {9, 10, 11, 12, 13, 32, 160})"

text \<open>\<open>toUpperCase\<close> and \<open>toLowerCase\<close> on the ASCII letters. The code compares the
  results only with ASCII patterns, and no code unit outside ASCII is mapped to one of
  the letters of these patterns.\<close>

definition upperChar :: "char \<Rightarrow> char" where
  "upperChar c =
     (if 97 \<le> code c \<and> code c \<le> 122 then ''ABCDEFGHIJKLMNOPQRSTUVWXYZ'' ! (code c - 97) else c)"

definition lowerChar :: "char \<Rightarrow> char" where
  "lowerChar c =
     (if 65 \<le> code c \<and> code c \<le> 90 then ''abcdefghijklmnopqrstuvwxyz'' ! (code c - 65) else c)"

definition toUpperCase :: "string \<Rightarrow> string" where
  "toUpperCase s = map upperChar s"

definition toLowerCase :: "string \<Rightarrow> string" where
  "toLowerCase s = map lowerChar s"

definition trim :: "string \<Rightarrow> string" where
  "trim s = rev (dropWhile isSpace (rev (dropWhile isSpace s)))"

fun startsWith :: "string \<Rightarrow> string \<Rightarrow> bool" where
  "startsWith s [] = True"
| "startsWith [] (p # ps) = False"
| "startsWith (c # cs) (p # ps) = (c = p \<and> startsWith cs ps)"

fun includesStr :: "string \<Rightarrow> string \<Rightarrow> bool" where
  "includesStr [] p = (p = [])"
| "includesStr (c # cs) p = (startsWith (c # cs) p \<or> includesStr cs p)"

text \<open>\<open>s.endsWith(p)\<close>, here the meaning of a pattern anchored with \<open>$\<close>.\<close>

definition endsWith :: "string \<Rightarrow> string \<Rightarrow> bool" where
  "endsWith s p = startsWith (rev s) (rev p)"

definition padStart :: "nat \<Rightarrow> char \<Rightarrow> string \<Rightarrow> string" where
  "padStart n c s = replicate (n - length s) c @ s"

fun join :: "string \<Rightarrow> string list \<Rightarrow> string" where
  "join sep [] = []"
| "join sep [x] = x"
| "join sep (x # y # ys) = x @ sep @ join sep (y # ys)"

subsection \<open>Decimal digits\<close>

definition digitChar :: "nat \<Rightarrow> char" where
  "digitChar d = ''0123456789'' ! d"

fun natToString :: "nat \<Rightarrow> string" where
  "natToString n =
     (if n < 10 then [digitChar n] else natToString (n div 10) @ [digitChar (n mod 10)])"

declare natToString.simps [simp del]

subsection \<open>Numbers\<close>

text \<open>
  A number of the language is an IEEE double: \<open>NaN\<close>, one of the two infinities, or a
  finite value, kept as the rational it denotes (the two zeros are not told apart: the
  code cannot observe the difference). \<open>toDouble\<close> is the rounding that every
  operation ends with: to the nearest double, to the one with the even significand in a
  tie, to an infinity from \<open>2^1024 - 2^970\<close> on.
\<close>

datatype jsnum = NaN | NegInfinity | Num rat | Infinity

text \<open>\<open>magnitude b a\<close> is the exponent \<open>e\<close> with \<open>b^e \<le> a < b^(e+1)\<close>, for \<open>a > 0\<close>.\<close>

definition magnitude :: "nat \<Rightarrow> rat \<Rightarrow> int" where
  "magnitude b a =
     (if 1 \<le> a then int (floorlog b (nat \<lfloor>a\<rfloor>)) - 1
      else - int (floorlog b (nat (\<lceil>1 / a\<rceil> - 1))))"

definition roundHalfEven :: "rat \<Rightarrow> int" where
  "roundHalfEven x =
     (let f = \<lfloor>x\<rfloor>; r = x - of_int f
      in if r < 1 / 2 then f else if 1 / 2 < r then f + 1 else if even f then f else f + 1)"

text \<open>The exponent of the last place of the doubles near \<open>a\<close>: 53 significant bits, and
  no place below \<open>2^-1074\<close>.\<close>

definition quantum :: "rat \<Rightarrow> int" where
  "quantum a = max (magnitude 2 a - 52) (- 1074)"

definition rounded :: "rat \<Rightarrow> rat" where
  "rounded a = of_int (roundHalfEven (a / 2 powi quantum a)) * 2 powi quantum a"

definition toDouble :: "rat \<Rightarrow> jsnum" where
  "toDouble q =
     (if q = 0 then Num 0
      else if 2 powi 1024 \<le> rounded \<bar>q\<bar> then (if 0 < q then Infinity else NegInfinity)
      else Num (if 0 < q then rounded \<bar>q\<bar> else - rounded \<bar>q\<bar>))"

text \<open>\<open>x * m\<close> for a number \<open>x\<close> and a finite \<open>m\<close>.\<close>

definition times :: "jsnum \<Rightarrow> rat \<Rightarrow> jsnum" where
  "times x m =
     (case x of
        NaN \<Rightarrow> NaN
      | Num v \<Rightarrow> toDouble (v * m)
      | Infinity \<Rightarrow> (if 0 < m then Infinity else if m < 0 then NegInfinity else NaN)
      | NegInfinity \<Rightarrow> (if 0 < m then NegInfinity else if m < 0 then Infinity else NaN))"

text \<open>\<open>x > 0\<close>, which is false of \<open>NaN\<close>.\<close>

definition positive :: "jsnum \<Rightarrow> bool" where
  "positive x =
     (case x of Num v \<Rightarrow> 0 < v | Infinity \<Rightarrow> True | NaN \<Rightarrow> False | NegInfinity \<Rightarrow> False)"
definition digitVal :: "char \<Rightarrow> nat" where
  "digitVal c =
     (if isDigit c then code c - 48
      else if 65 \<le> code c \<and> code c \<le> 70 then code c - 55
      else code c - 87)"

text \<open>The value of a digit string in a radix, most significant digit first.\<close>

definition digitsValue :: "nat \<Rightarrow> string \<Rightarrow> nat" where
  "digitsValue radix ds = foldl (\<lambda>acc c. acc * radix + digitVal c) 0 ds"

text \<open>
  \<open>parseInt(s)\<close> without a radix: leading white space is skipped, a sign is read, a
  prefix \<open>0x\<close> or \<open>0X\<close> selects radix 16, and the longest run of digits of the radix
  is read; the result is the double nearest to the integer they denote, or \<open>NaN\<close> when
  there is no digit.
\<close>

definition parseInt :: "string \<Rightarrow> jsnum" where
  "parseInt s =
     (let t = dropWhile isSpace s;
          neg = startsWith t ''-'';
          u = (if startsWith t ''-'' \<or> startsWith t ''+'' then tl t else t);
          hex = (startsWith u ''0x'' \<or> startsWith u ''0X'');
          v = (if hex then drop 2 u else u);
          ds = (if hex then takeWhile isHexDigit v else takeWhile isDigit v);
          n = int (digitsValue (if hex then 16 else 10) ds)
      in if ds = [] then NaN else toDouble (of_int (if neg then - n else n)))"

text \<open>
  \<open>parseFloat\<close> on the strings it is applied to here, which consist of digits and dots
  (group 1 of the size pattern): the longest prefix that is a decimal literal
  \<open>digits\<close>, \<open>digits.\<close>, \<open>digits.digits\<close> or \<open>.digits\<close> is read, and the result is
  the double nearest to the number it denotes; \<open>NaN\<close> when there is no such prefix.
\<close>

definition parseFloat :: "string \<Rightarrow> jsnum" where
  "parseFloat s =
     (let ip = takeWhile isDigit s;
          rest = dropWhile isDigit s;
          fp = (if startsWith rest ''.'' then takeWhile isDigit (tl rest) else [])
      in if ip = [] \<and> fp = [] then NaN
         else toDouble (of_nat (digitsValue 10 ip)
                        + of_nat (digitsValue 10 fp) / of_nat (10 ^ length fp)))"

subsection \<open>The notation of a number\<close>

text \<open>
  \<open>String(x)\<close> and \<open>x.toString()\<close>. For a positive \<open>x\<close> the language takes the
  shortest digit string \<open>s\<close> of \<open>k\<close> digits and the exponent \<open>n\<close> for which
  \<open>s * 10^(n-k)\<close> reads back as \<open>x\<close>, the one nearest to \<open>x\<close> if there are several;
  seventeen digits always suffice. Of the digit strings of \<open>k\<close> digits that read back as
  \<open>x\<close> the nearest to \<open>x\<close> is one of the two next to \<open>x\<close>; \<open>digitCandidates x n k\<close>
  are those of the two that read back as \<open>x\<close>.
\<close>

definition digitCandidates :: "rat \<Rightarrow> int \<Rightarrow> nat \<Rightarrow> int list" where
  "digitCandidates x n k =
     (let scale = 10 powi (n - int k); lo = \<lfloor>x / scale\<rfloor>
      in filter (\<lambda>s. toDouble (of_int s * scale) = Num x) [lo, lo + 1])"

definition closestDigits :: "rat \<Rightarrow> int \<Rightarrow> nat \<Rightarrow> int list \<Rightarrow> int" where
  "closestDigits x n k cs =
     (case cs of
        [lo, hi] \<Rightarrow>
          (let scale = 10 powi (n - int k); below = x - of_int lo * scale;
               above = of_int hi * scale - x
           in if below < above then lo else if above < below then hi
              else if even lo then lo else hi)
      | s # rest \<Rightarrow> s
      | [] \<Rightarrow> \<lfloor>x / 10 powi (n - int k)\<rfloor>)"

text \<open>The result is \<open>(k, s, n)\<close>; when the digits found are a one followed by \<open>k\<close> zeros
  they are the single digit one with the next exponent.\<close>

definition shortestDigits :: "rat \<Rightarrow> nat \<times> int \<times> int" where
  "shortestDigits x =
     (let n = magnitude 10 x + 1;
          k = (case find (\<lambda>k. digitCandidates x n k \<noteq> []) [1..<18] of
                 Some k \<Rightarrow> k | None \<Rightarrow> 17);
          s = closestDigits x n k (digitCandidates x n k)
      in if s = 10 ^ k then (1, 1, n + 1) else (k, s, n))"

text \<open>Plain digits for \<open>-5 \<le> n \<le> 21\<close>, with the decimal point where it falls, and the
  exponent notation otherwise.\<close>

definition formatDigits :: "nat \<times> int \<times> int \<Rightarrow> string" where
  "formatDigits ksn =
     (case ksn of (k, s, n) \<Rightarrow>
        (let ds = natToString (nat s) in
         if - 5 \<le> n \<and> n \<le> 21 then
           (if int k \<le> n then ds @ replicate (nat (n - int k)) CHR ''0''
            else if 0 < n then take (nat n) ds @ ''.'' @ drop (nat n) ds
            else ''0.'' @ replicate (nat (- n)) CHR ''0'' @ ds)
         else
           (if k = 1 then ds else hd ds # ''.'' @ tl ds)
             @ ''e'' @ (if 0 \<le> n - 1 then ''+'' else ''-'') @ natToString (nat \<bar>n - 1\<bar>)))"

definition numberToString :: "jsnum \<Rightarrow> string" where
  "numberToString x =
     (case x of
        NaN \<Rightarrow> ''NaN''
      | Infinity \<Rightarrow> ''Infinity''
      | NegInfinity \<Rightarrow> ''-Infinity''
      | Num v \<Rightarrow>
          if v = 0 then ''0''
          else if v < 0 then CHR ''-'' # formatDigits (shortestDigits (- v))
          else formatDigits (shortestDigits v))"

text \<open>
  A whole number in a reply of the remote service or in a search result is held as an
  \<^typ>\<open>int\<close>: the value of the double that the program has after reading the JSON text.
  \<open>numToString\<close> is \<open>String(n)\<close> and \<open>n.toString()\<close> for such a number; below \<open>2^53\<close>
  it is the decimal notation (lemma \<open>numToString_nat\<close>).
\<close>

definition numToString :: "int \<Rightarrow> string" where
  "numToString i = numberToString (Num (of_int i))"

subsection \<open>Counts\<close>

text \<open>
  A seeder or leecher count is a number that is not \<open>NaN\<close>: a whole number or, for a
  text of more than 308 digits, an infinity. Counts are ordered as numbers are.
\<close>

datatype xint = NegInf | Fin int | PosInf

instantiation xint :: linorder
begin

definition less_eq_xint :: "xint \<Rightarrow> xint \<Rightarrow> bool" where
  "less_eq_xint x y =
     (case (x, y) of
        (NegInf, _) \<Rightarrow> True
      | (_, PosInf) \<Rightarrow> True
      | (Fin a, Fin b) \<Rightarrow> a \<le> b
      | _ \<Rightarrow> False)"

definition less_xint :: "xint \<Rightarrow> xint \<Rightarrow> bool" where
  "less_xint x y = (x \<le> y \<and> \<not> y \<le> (x::xint))"

instance
proof
  fix x y z :: xint
  show "(x < y) = (x \<le> y \<and> \<not> y \<le> x)" by (simp add: less_xint_def)
  show "x \<le> x" by (cases x) (simp_all add: less_eq_xint_def)
  show "x \<le> y \<Longrightarrow> y \<le> z \<Longrightarrow> x \<le> z"
    by (cases x; cases y; cases z) (simp_all add: less_eq_xint_def)
  show "x \<le> y \<Longrightarrow> y \<le> x \<Longrightarrow> x = y"
    by (cases x; cases y) (simp_all add: less_eq_xint_def)
  show "x \<le> y \<or> y \<le> x"
    by (cases x; cases y) (auto simp: less_eq_xint_def)
qed

end

text \<open>\<open>parseInt(text) || 0\<close>: \<open>NaN\<close> and zero give zero. The value of \<open>parseInt\<close> is
  whole, so taking its floor changes nothing.\<close>

definition orZero :: "jsnum \<Rightarrow> xint" where
  "orZero v =
     (case v of NaN \<Rightarrow> Fin 0 | Num q \<Rightarrow> Fin \<lfloor>q\<rfloor> | Infinity \<Rightarrow> PosInf | NegInfinity \<Rightarrow> NegInf)"

text \<open>\<open>x - y\<close> for two counts: the difference of two equal infinities is \<open>NaN\<close>.\<close>

fun minus :: "xint \<Rightarrow> xint \<Rightarrow> jsnum" where
  "minus (Fin a) (Fin b) = toDouble (of_int (a - b))"
| "minus PosInf PosInf = NaN"
| "minus NegInf NegInf = NaN"
| "minus PosInf y = Infinity"
| "minus x NegInf = Infinity"
| "minus NegInf y = NegInfinity"
| "minus x PosInf = NegInfinity"

subsection \<open>\<open>encodeURIComponent\<close>\<close>

definition hexChar :: "nat \<Rightarrow> char" where
  "hexChar d = ''0123456789ABCDEF'' ! d"

definition percentByte :: "nat \<Rightarrow> string" where
  "percentByte b = [CHR ''%'', hexChar (b div 16), hexChar (b mod 16)]"

definition isUnreserved :: "char \<Rightarrow> bool" where
  "isUnreserved c =
     (isDigit c \<or> (65 \<le> code c \<and> code c \<le> 90) \<or> (97 \<le> code c \<and> code c \<le> 122)
      \<or> c \<in> set ''-_.!~*'()'')"

text \<open>A code unit from 128 to 255 is written as the two bytes of its UTF-8 form.\<close>

definition encodeChar :: "char \<Rightarrow> string" where
  "encodeChar c =
     (if isUnreserved c then [c]
      else if code c < 128 then percentByte (code c)
      else percentByte (192 + code c div 64) @ percentByte (128 + code c mod 64))"

definition encodeURIComponent :: "string \<Rightarrow> string" where
  "encodeURIComponent s = concat (map encodeChar s)"

section \<open>Result model\<close>

text \<open>Every \<open>throw new Error(...)\<close> of the code is one constructor; a rejected HTTP
  request is \<open>RemoteError\<close> with the message of the client library.\<close>

datatype error =
    ValidationFailed
  | NoScrapersAvailable
  | ApiKeyRequired
  | NotAuthenticated
  | TorrentNotReady string
  | NoLinksAvailable
  | RemoteError string

datatype media_type = Movie | Series | Anime

record torrent_result =
  tr_id :: string
  tr_name :: string
  tr_size :: jsnum
  seeders :: xint
  leechers :: xint
  tr_magnetUri :: string
  infoHash :: string
  uploadDate :: "string option"
  quality :: "string option"
  source :: "string option"
  tr_providerId :: string

subsection \<open>\<open>Array.prototype.sort\<close> with a comparison function\<close>

text \<open>
  The sort of the language is stable, and for a comparison function that is a consistent
  ordering its result is fixed by that; insertion from the right, placing an element
  before the first one it does not compare greater than, computes it. A comparison that
  yields \<open>NaN\<close> counts as zero, so only a positive value moves an element behind
  another.
\<close>

fun insertBy :: "('a \<Rightarrow> 'a \<Rightarrow> jsnum) \<Rightarrow> 'a \<Rightarrow> 'a list \<Rightarrow> 'a list" where
  "insertBy cmp x [] = [x]"
| "insertBy cmp x (y # ys) =
     (if positive (cmp x y) then y # insertBy cmp x ys else x # y # ys)"

definition sortWith :: "('a \<Rightarrow> 'a \<Rightarrow> jsnum) \<Rightarrow> 'a list \<Rightarrow> 'a list" where
  "sortWith cmp xs = foldr (insertBy cmp) xs []"

text \<open>\<open>(a, b) => b.seeders - a.seeders\<close>\<close>

definition bySeeders :: "torrent_result \<Rightarrow> torrent_result \<Rightarrow> jsnum" where
  "bySeeders a b = minus (seeders b) (seeders a)"

section \<open>The LimeTorrents scraper\<close>

definition baseUrl :: string where
  "baseUrl = ''https://www.limetorrents.lol''"

definition providerId :: string where
  "providerId = ''limetorrents''"

text \<open>
  \<open>link.match(/\/([A-F0-9]{40})\//i)\<close>: the leftmost slash that is followed by forty
  hexadecimal digits and a slash; the result is group 1.
\<close>

fun matchInfoHash :: "string \<Rightarrow> string option" where
  "matchInfoHash [] = None"
| "matchInfoHash (c # cs) =
     (if c = CHR ''/'' \<and> length (take 40 cs) = 40 \<and> list_all isHexDigit (take 40 cs)
         \<and> startsWith (drop 40 cs) ''/''
      then Some (take 40 cs) else matchInfoHash cs)"

definition extractInfoHashFromLink :: "string option \<Rightarrow> string option" where
  "extractInfoHashFromLink link =
     (case link of
        None \<Rightarrow> None
      | Some l \<Rightarrow>
          if l = [] then None
          else (case matchInfoHash l of None \<Rightarrow> None | Some h \<Rightarrow> Some (toLowerCase h)))"

definition trackers :: "string list" where
  "trackers =
     [''udp://tracker.opentrackr.org:1337/announce'',
      ''udp://open.stealth.si:80/announce'',
      ''udp://tracker.torrent.eu.org:451/announce'',
      ''udp://tracker.bittor.pw:1337/announce'',
      ''udp://public.popcorn-tracker.org:6969/announce'']"

definition buildMagnetUri :: "string \<Rightarrow> string \<Rightarrow> string" where
  "buildMagnetUri h name =
     (let encodedName = encodeURIComponent name;
          trackerString = join [] (map (\<lambda>t. ''&tr='' @ encodeURIComponent t) trackers)
      in ''magnet:?xt=urn:btih:'' @ h @ ''&dn='' @ encodedName @ trackerString)"

text \<open>
  \<open>sizeText.match(/([\d.]+)\s*(GB|MB|KB|TB)/i)\<close>. At one start position the pattern can
  only match with the whole run of digits and dots and the whole run of white space
  after it, since a digit, a dot or a white-space character cannot begin a unit;
  \<open>sizeMatchAt\<close> is the attempt at the start of the string, \<open>sizeMatch\<close> tries the
  positions from the left. The result holds groups 1 and 2.
\<close>

definition isNumChar :: "char \<Rightarrow> bool" where
  "isNumChar c = (isDigit c \<or> c = CHR ''.'')"

definition units :: "string list" where
  "units = [''GB'', ''MB'', ''KB'', ''TB'']"

definition sizeMatchAt :: "string \<Rightarrow> (string \<times> string) option" where
  "sizeMatchAt s =
     (let num = takeWhile isNumChar s;
          unit = take 2 (dropWhile isSpace (dropWhile isNumChar s))
      in if num \<noteq> [] \<and> toUpperCase unit \<in> set units then Some (num, unit) else None)"

fun sizeMatch :: "string \<Rightarrow> (string \<times> string) option" where
  "sizeMatch [] = None"
| "sizeMatch (c # cs) =
     (case sizeMatchAt (c # cs) of Some m \<Rightarrow> Some m | None \<Rightarrow> sizeMatch cs)"

definition multipliers :: "(string \<times> rat) list" where
  "multipliers = [(''TB'', 1024 ^ 4), (''GB'', 1024 ^ 3), (''MB'', 1024 ^ 2), (''KB'', 1024)]"

definition parseSize :: "string \<Rightarrow> jsnum" where
  "parseSize sizeText =
     (case sizeMatch sizeText of
        None \<Rightarrow> Num 0
      | Some (num, unit) \<Rightarrow>
          times (parseFloat num)
            (case map_of multipliers (toUpperCase unit) of None \<Rightarrow> 0 | Some m \<Rightarrow> m))"

text \<open>A date is kept as the text it is constructed from.\<close>

definition parseDate :: "string \<Rightarrow> string option" where
  "parseDate dateText = (if dateText = [] \<or> dateText = ''-'' then None else Some dateText)"

definition qualities :: "string list" where
  "qualities = [''2160p'', ''1080p'', ''720p'', ''480p'', ''360p'']"

definition extractQuality :: "string \<Rightarrow> string option" where
  "extractQuality name =
     (let nameUpper = toUpperCase name in
      case find (\<lambda>q. includesStr nameUpper (toUpperCase q)) qualities of
        Some q \<Rightarrow> Some q
      | None \<Rightarrow>
          if includesStr nameUpper ''4K'' \<or> includesStr nameUpper ''UHD'' then Some ''2160p''
          else None)"

text \<open>
  One row of \<open>.table2 tbody tr\<close> as the HTML library hands it over: the text of the second
  link of \<open>.tt-name\<close>, the \<open>href\<close> of the first one (absent when there is none), and the
  texts of the size, seeder, leecher and date cells.
\<close>

record row =
  titleText :: string
  torrentLink :: "string option"
  sizeCell :: string
  seedCell :: string
  leechCell :: string
  dateCell :: string

text \<open>The body of the loop over the rows: \<open>None\<close> is a row left out by \<open>return\<close>.\<close>

definition parseRow :: "row \<Rightarrow> torrent_result option" where
  "parseRow r =
     (let name = trim (titleText r) in
      if name = [] then None
      else (case extractInfoHashFromLink (torrentLink r) of
              None \<Rightarrow> None
            | Some h \<Rightarrow>
                Some \<lparr> tr_id = h, tr_name = name, tr_size = parseSize (trim (sizeCell r)),
                       seeders = orZero (parseInt (trim (seedCell r))),
                       leechers = orZero (parseInt (trim (leechCell r))),
                       tr_magnetUri = buildMagnetUri h name, infoHash = h,
                       uploadDate = parseDate (trim (dateCell r)),
                       quality = extractQuality name, source = Some ''limetorrents'',
                       tr_providerId = providerId \<rparr>))"

definition parseSearchResults :: "row list \<Rightarrow> torrent_result list" where
  "parseSearchResults rows = sortWith bySeeders (List.map_filter parseRow rows)"

text \<open>
  The index is reached through \<open>httpGet\<close>, which answers a URL with the rows of the
  result page or with the error of the request.
\<close>

definition search ::
  "(string \<Rightarrow> error + row list) \<Rightarrow> string \<Rightarrow> media_type \<Rightarrow> error + torrent_result list" where
  "search httpGet query mediaType =
     (let url = baseUrl @ ''/search/all/'' @ encodeURIComponent query @ ''/seeds/1/'' in
      case httpGet url of Inl e \<Rightarrow> Inl e | Inr rows \<Rightarrow> Inr (parseSearchResults rows))"

text \<open>Season and episode are numbers: \<open>EpisodeSearchSchema\<close> asks for a number that is
  at least one, whole or not, of any size.\<close>

definition searchEpisode ::
  "(string \<Rightarrow> error + row list) \<Rightarrow> string \<Rightarrow> jsnum \<Rightarrow> jsnum \<Rightarrow> error + torrent_result list" where
  "searchEpisode httpGet seriesName season episode =
     search httpGet
       (seriesName @ '' S'' @ padStart 2 CHR ''0'' (numberToString season)
          @ ''E'' @ padStart 2 CHR ''0'' (numberToString episode))
       Series"

section \<open>The Real-Debrid provider\<close>

subsection \<open>Replies of the service\<close>

record rd_user =
  user_id :: int
  username :: string
  email :: string
  user_premium :: int
  expiration :: string

record rd_file =
  file_id :: int
  path :: string
  bytes :: int
  selected :: int

record rd_torrent =
  torrent_id :: string
  filename :: string
  hash :: string
  torrent_bytes :: int
  torrent_status :: string
  added :: string
  links :: "string list"
  ended :: "string option"
  torrent_progress :: rat
  files :: "rd_file list option"

record rd_unrestrict =
  unrestrict_id :: string
  unrestrict_filename :: string
  download :: string
  streamable :: int

subsection \<open>Values handed to the caller\<close>

record provider_account =
  account_id :: string
  account_providerId :: string
  account_username :: "string option"
  account_email :: "string option"
  account_premium :: bool
  account_expiresAt :: "string option"
  createdAt :: string
  updatedAt :: string

record debrid_credentials =
  cred_apiKey :: "string option"
  accessToken :: "string option"
  refreshToken :: "string option"

record provider_status =
  online :: bool
  status_premium :: bool
  status_expiresAt :: "string option"

datatype transfer_status = Queued | Downloading | Processing | Ready | Error

text \<open>
  What the \<open>status\<close> field of a transfer holds when the program runs: one of the five
  status strings, or an object member that the lookup in the translation table found
  on the prototype of the table (see \<open>getProperty\<close>).
\<close>

datatype status_value = Status transfer_status | ObjectMember string

record debrid_file =
  df_id :: string
  df_name :: string
  df_size :: int
  streamUrl :: "string option"

record debrid_transfer =
  transfer_id :: string
  magnetUri :: string
  transfer_name :: string
  status :: status_value
  progress :: rat
  transfer_files :: "debrid_file list"
  error_detail :: "string option"

subsection \<open>Object literals as lookup tables\<close>

text \<open>
  \<open>obj[key]\<close> on an object literal finds the properties written in the literal and, for
  any other key, the members that every object inherits from \<open>Object.prototype\<close>;
  only a key that is neither is \<open>undefined\<close>.
\<close>

datatype 'a property = Own 'a | Inherited string | Undefined

definition objectPrototypeKeys :: "string list" where
  "objectPrototypeKeys =
     [''constructor'', ''__proto__'', ''hasOwnProperty'', ''isPrototypeOf'',
      ''propertyIsEnumerable'', ''toLocaleString'', ''toString'', ''valueOf'',
      ''__defineGetter__'', ''__defineSetter__'', ''__lookupGetter__'',
      ''__lookupSetter__'']"

definition getProperty :: "(string \<times> 'a) list \<Rightarrow> string \<Rightarrow> 'a property" where
  "getProperty obj key =
     (case map_of obj key of
        Some v \<Rightarrow> Own v
      | None \<Rightarrow> if key \<in> set objectPrototypeKeys then Inherited key else Undefined)"

definition statusMap :: "(string \<times> transfer_status) list" where
  "statusMap =
     [(''magnet_error'', Error),
      (''magnet_conversion'', Queued),
      (''waiting_files_selection'', Queued),
      (''queued'', Queued),
      (''downloading'', Downloading),
      (''downloaded'', Ready),
      (''error'', Error),
      (''virus'', Error),
      (''dead'', Error)]"

text \<open>\<open>statusMap[torrent.status] || 'queued'\<close>: a status string and an inherited member
  are truthy, \<open>undefined\<close> gives way to the default.\<close>

definition mapStatus :: "string \<Rightarrow> status_value" where
  "mapStatus st =
     (case getProperty statusMap st of
        Own v \<Rightarrow> Status v
      | Inherited k \<Rightarrow> ObjectMember k
      | Undefined \<Rightarrow> Status Queued)"

definition mapTorrentToTransfer :: "rd_torrent \<Rightarrow> debrid_transfer" where
  "mapTorrentToTransfer torrent =
     \<lparr> transfer_id = torrent_id torrent,
       magnetUri = ''magnet:?xt=urn:btih:'' @ hash torrent,
       transfer_name = filename torrent,
       status = mapStatus (torrent_status torrent),
       progress = torrent_progress torrent,
       transfer_files =
         (case files torrent of
            None \<Rightarrow> []
          | Some fs \<Rightarrow>
              map (\<lambda>f. \<lparr> df_id = numToString (file_id f), df_name = path f,
                          df_size = bytes f, streamUrl = None \<rparr>) fs),
       error_detail = None \<rparr>"

subsection \<open>The provider object and the service behind it\<close>

datatype request =
    GetUser
  | PostAddMagnet string
  | GetTorrentInfo string
  | PostSelectFiles string string
  | PostUnrestrictLink string

text \<open>
  The fields of the provider that its methods assign, the \<open>Authorization\<close> header kept
  in the defaults of its HTTP client, and the requests issued through that client so
  far, oldest first.
\<close>

record provider =
  enabled :: bool
  apiKey :: "string option"
  authorization :: "string option"
  account :: "provider_account option"
  requests :: "request list"

text \<open>The answers of the remote service to the requests of one method call, and the
  clock read by \<open>new Date()\<close>.\<close>

record service =
  getUser :: "string option \<Rightarrow> error + rd_user"
  postAddMagnet :: "string \<Rightarrow> error + string"
  getTorrentInfo :: "string \<Rightarrow> error + rd_torrent"
  postSelectFiles :: "string \<Rightarrow> string \<Rightarrow> error + unit"
  postUnrestrictLink :: "string \<Rightarrow> error + rd_unrestrict"
  now :: string

text \<open>A string that may be \<open>undefined\<close> is truthy when it is present and not empty.\<close>

definition truthy :: "string option \<Rightarrow> bool" where
  "truthy v = (case v of None \<Rightarrow> False | Some t \<Rightarrow> t \<noteq> [])"

definition sent :: "provider \<Rightarrow> request \<Rightarrow> provider" where
  "sent p r = p\<lparr>requests := requests p @ [r]\<rparr>"

definition authenticate ::
  "provider \<Rightarrow> service \<Rightarrow> debrid_credentials \<Rightarrow> (error + provider_account) \<times> provider" where
  "authenticate p svc credentials =
     (case cred_apiKey credentials of
        None \<Rightarrow> (Inl ApiKeyRequired, p\<lparr>apiKey := None\<rparr>)
      | Some k \<Rightarrow>
          if k = [] then (Inl ApiKeyRequired, p\<lparr>apiKey := None\<rparr>)
          else
            (let p1 = sent (p\<lparr>apiKey := Some k, authorization := Some (''Bearer '' @ k)\<rparr>) GetUser
             in case getUser svc (authorization p1) of
                  Inl e \<Rightarrow> (Inl e, p1\<lparr>apiKey := None\<rparr>)
                | Inr user \<Rightarrow>
                    (let acc = \<lparr> account_id = numToString (user_id user),
                                  account_providerId = ''real-debrid'',
                                  account_username = Some (username user),
                                  account_email = Some (email user),
                                  account_premium = (user_premium user > 0),
                                  account_expiresAt = Some (expiration user),
                                  createdAt = now svc, updatedAt = now svc \<rparr>
                     in (Inr acc, p1\<lparr>account := Some acc\<rparr>))))"

definition checkStatus :: "provider \<Rightarrow> service \<Rightarrow> (error + provider_status) \<times> provider" where
  "checkStatus p svc =
     (if \<not> truthy (apiKey p) then (Inl NotAuthenticated, p)
      else
        (let p1 = sent p GetUser in
         case getUser svc (authorization p1) of
           Inl e \<Rightarrow> (Inl e, p1)
         | Inr user \<Rightarrow>
             (Inr \<lparr> online = True, status_premium = (user_premium user > 0),
                    status_expiresAt = Some (expiration user) \<rparr>, p1)))"

definition addMagnet ::
  "provider \<Rightarrow> service \<Rightarrow> string \<Rightarrow> (error + debrid_transfer) \<times> provider" where
  "addMagnet p svc magnet =
     (if \<not> truthy (apiKey p) then (Inl NotAuthenticated, p)
      else
        (let p1 = sent p (PostAddMagnet magnet) in
         case postAddMagnet svc magnet of
           Inl e \<Rightarrow> (Inl e, p1)
         | Inr torrentId \<Rightarrow>
             (let p2 = sent p1 (GetTorrentInfo torrentId) in
              case getTorrentInfo svc torrentId of
                Inl e \<Rightarrow> (Inl e, p2)
              | Inr torrent \<Rightarrow>
                  (case files torrent of
                     None \<Rightarrow> (Inr (mapTorrentToTransfer torrent), p2)
                   | Some fs \<Rightarrow>
                       if length fs > 0 then
                         (let fileIds = join '','' (map (\<lambda>f. numToString (file_id f)) fs);
                              p3 = sent p2 (PostSelectFiles torrentId fileIds)
                          in case postSelectFiles svc torrentId fileIds of
                               Inl e \<Rightarrow> (Inl e, p3)
                             | Inr u \<Rightarrow> (Inr (mapTorrentToTransfer torrent), p3))
                       else (Inr (mapTorrentToTransfer torrent), p2)))))"

definition getTransferStatus ::
  "provider \<Rightarrow> service \<Rightarrow> string \<Rightarrow> (error + debrid_transfer) \<times> provider" where
  "getTransferStatus p svc transferId =
     (if \<not> truthy (apiKey p) then (Inl NotAuthenticated, p)
      else
        (let p1 = sent p (GetTorrentInfo transferId) in
         case getTorrentInfo svc transferId of
           Inl e \<Rightarrow> (Inl e, p1)
         | Inr torrent \<Rightarrow> (Inr (mapTorrentToTransfer torrent), p1)))"

subsection \<open>Choosing the link to unrestrict\<close>

definition videoExtensions :: "string list" where
  "videoExtensions = [''mp4'', ''mkv'', ''avi'', ''mov'', ''wmv'', ''flv'', ''webm'']"

text \<open>\<open>/\.(mp4|mkv|avi|mov|wmv|flv|webm)$/i.test(path)\<close>\<close>

definition isVideoPath :: "string \<Rightarrow> bool" where
  "isVideoPath p = list_ex (\<lambda>e. endsWith (toLowerCase p) (CHR ''.'' # e)) videoExtensions"

fun findIndex :: "('a \<Rightarrow> bool) \<Rightarrow> 'a list \<Rightarrow> nat option" where
  "findIndex P [] = None"
| "findIndex P (x # xs) =
     (if P x then Some 0 else (case findIndex P xs of None \<Rightarrow> None | Some i \<Rightarrow> Some (Suc i)))"

text \<open>
  \<open>indexOf\<close> finds an object by identity, so each file object is kept together with
  its position in \<open>torrent.files\<close>; \<open>videoFiles\<close> is the filtered array and
  \<open>largestVideo\<close> the reduction \<open>(prev, current) => current.bytes > prev.bytes ? current : prev\<close>
  of a non-empty array, which starts from its first element.
\<close>

definition videoFiles :: "rd_file list \<Rightarrow> (nat \<times> rd_file) list" where
  "videoFiles fs = filter (\<lambda>(i, f). isVideoPath (path f)) (zip [0..<length fs] fs)"

definition largestVideo :: "(nat \<times> rd_file) \<Rightarrow> (nat \<times> rd_file) list \<Rightarrow> nat \<times> rd_file" where
  "largestVideo v vs =
     foldl (\<lambda>prev current. if bytes (snd current) > bytes (snd prev) then current else prev) v vs"

text \<open>
  The statements between the check of the links and the request to unrestrict; they
  run only when \<open>torrent.links\<close> is not empty, so \<open>torrent.links[0]\<close> exists.
  \<open>linkForFileId\<close> is the branch taken for a truthy \<open>fileId\<close> when \<open>torrent.files\<close>
  is present, \<open>linkForLargestVideo\<close> the branch \<open>else if\<close>.
\<close>

definition linkForFileId :: "string \<Rightarrow> rd_file list \<Rightarrow> string list \<Rightarrow> string" where
  "linkForFileId fileId fs ls =
     (case findIndex (\<lambda>f. Num (of_int (file_id f)) = parseInt fileId) fs of
        Some fileIndex \<Rightarrow> if fileIndex < length ls then ls ! fileIndex else ls ! 0
      | None \<Rightarrow> ls ! 0)"

definition linkForLargestVideo :: "rd_file list \<Rightarrow> string list \<Rightarrow> string" where
  "linkForLargestVideo fs ls =
     (if length fs > 1 then
        (case videoFiles fs of
           [] \<Rightarrow> ls ! 0
         | v # vs \<Rightarrow>
             (let videoIndex = fst (largestVideo v vs) in
              if videoIndex < length ls then ls ! videoIndex else ls ! 0))
      else ls ! 0)"

definition linkToUnrestrict :: "string option \<Rightarrow> rd_torrent \<Rightarrow> string" where
  "linkToUnrestrict fileId torrent =
     (case files torrent of
        None \<Rightarrow> links torrent ! 0
      | Some fs \<Rightarrow>
          (case fileId of
             None \<Rightarrow> linkForLargestVideo fs (links torrent)
           | Some fid \<Rightarrow>
               if fid \<noteq> [] then linkForFileId fid fs (links torrent)
               else linkForLargestVideo fs (links torrent)))"

definition getStreamUrl ::
  "provider \<Rightarrow> service \<Rightarrow> string \<Rightarrow> string option \<Rightarrow> (error + string) \<times> provider" where
  "getStreamUrl p svc transferId fileId =
     (if \<not> truthy (apiKey p) then (Inl NotAuthenticated, p)
      else
        (let p1 = sent p (GetTorrentInfo transferId) in
         case getTorrentInfo svc transferId of
           Inl e \<Rightarrow> (Inl e, p1)
         | Inr torrent \<Rightarrow>
             if torrent_status torrent \<noteq> ''downloaded''
             then (Inl (TorrentNotReady (torrent_status torrent)), p1)
             else if length (links torrent) = 0 then (Inl NoLinksAvailable, p1)
             else
               (let link = linkToUnrestrict fileId torrent;
                    p2 = sent p1 (PostUnrestrictLink link)
                in case postUnrestrictLink svc link of
                     Inl e \<Rightarrow> (Inl e, p2)
                   | Inr r \<Rightarrow> (Inr (download r), p2))))"

section \<open>The search handlers\<close>

text \<open>
  A call of a method that is declared to return a promise either throws before it has
  returned one, or returns a promise, which is rejected with an error or fulfilled with
  a value. A method declared \<open>async\<close> always returns a promise; the interface
  \<open>ScraperProvider\<close> does not ask for that.
\<close>

datatype 'a call = Throws error | Returns "error + 'a"

text \<open>A registered scraper as the handler sees it: its flag and the outcome of its
  two search methods.\<close>

record scraper =
  scraper_id :: string
  scraper_enabled :: bool
  scraper_search :: "string \<Rightarrow> media_type \<Rightarrow> torrent_result list call"
  scraper_searchEpisode :: "string \<Rightarrow> jsnum \<Rightarrow> jsnum \<Rightarrow> torrent_result list call"

text \<open>The LimeTorrents scraper, registered: both methods are declared \<open>async\<close>.\<close>

definition limeTorrents :: "bool \<Rightarrow> (string \<Rightarrow> error + row list) \<Rightarrow> scraper" where
  "limeTorrents on httpGet =
     \<lparr> scraper_id = providerId, scraper_enabled = on,
       scraper_search = (\<lambda>q t. Returns (search httpGet q t)),
       scraper_searchEpisode = (\<lambda>n s e. Returns (searchEpisode httpGet n s e)) \<rparr>"

record media_search =
  query :: string
  year :: "int option"
  search_type :: "media_type option"

text \<open>\<open>MediaSearchSchema\<close>: of the values of this type it rejects the empty query.\<close>

definition validateMediaSearch :: "media_search \<Rightarrow> error + media_search" where
  "validateMediaSearch d = (if length (query d) \<ge> 1 then Inr d else Inl ValidationFailed)"

text \<open>
  \<open>scrapers.map(scraper => scraper.search(...))\<close> calls the scrapers in their order and
  collects the promises; a call that throws ends the \<open>map\<close>, and no array of promises
  comes about.
\<close>

fun callAll :: "'a call list \<Rightarrow> error + (error + 'a) list" where
  "callAll [] = Inr []"
| "callAll (Throws e # cs) = Inl e"
| "callAll (Returns p # cs) = (case callAll cs of Inl e \<Rightarrow> Inl e | Inr ps \<Rightarrow> Inr (p # ps))"

definition fulfilled :: "error + 'a \<Rightarrow> bool" where
  "fulfilled r = (case r of Inl e \<Rightarrow> False | Inr v \<Rightarrow> True)"

definition settledValue :: "error + 'a list \<Rightarrow> 'a list" where
  "settledValue r = (case r of Inl e \<Rightarrow> [] | Inr v \<Rightarrow> v)"

text \<open>The handler of \<open>torrent:search\<close>; \<open>allScrapers\<close> is what \<open>getAllScrapers()\<close>
  returns, in the order of registration. \<open>Promise.allSettled\<close> waits for every promise
  and never rejects.\<close>

definition torrentSearch :: "scraper list \<Rightarrow> media_search \<Rightarrow> error + torrent_result list" where
  "torrentSearch allScrapers d =
     (case validateMediaSearch d of
        Inl e \<Rightarrow> Inl e
      | Inr validated \<Rightarrow>
          (let scrapers = filter scraper_enabled allScrapers in
           if length scrapers = 0 then Inl NoScrapersAvailable
           else
             (case callAll
                     (map (\<lambda>s. scraper_search s (query validated)
                                 (case search_type validated of None \<Rightarrow> Movie | Some t \<Rightarrow> t))
                        scrapers) of
                Inl e \<Rightarrow> Inl e
              | Inr results \<Rightarrow>
                  (let allResults = concat (map settledValue (filter fulfilled results))
                   in Inr (sortWith bySeeders allResults)))))"

section \<open>Notions of the specification\<close>



fun splitOn :: "char \<Rightarrow> string \<Rightarrow> string list" where
  "splitOn c [] = [[]]"
| "splitOn c (x # xs) =
     (if x = c then [] # splitOn c xs
      else (case splitOn c xs of [] \<Rightarrow> [[x]] | p # ps \<Rightarrow> (x # p) # ps))"

text \<open>
  Modelled from the spec: parsing the \<open>xt\<close> parameter of a magnet URI. The repository
  builds magnet URIs and has no function that reads one, so the reading follows the
  glossary, where a magnet reference identifies its content by the content hash: the
  parameters after \<open>magnet:?\<close> are separated by \<open>&\<close>, and the hash is the rest of the
  first parameter that begins with \<open>xt=urn:btih:\<close>.
\<close>

definition spec_parseXt :: "string \<Rightarrow> string option" where
  "spec_parseXt uri =
     (if startsWith uri ''magnet:?'' then
        (case find (\<lambda>q. startsWith q ''xt=urn:btih:'') (splitOn CHR ''&'' (drop 8 uri)) of
           None \<Rightarrow> None
         | Some q \<Rightarrow> Some (drop 12 q))
      else None)"

text \<open>Descending order of the seeder counts, position by position.\<close>

definition seedersDescending :: "torrent_result list \<Rightarrow> bool" where
  "seedersDescending rs =
     (\<forall>i j. i < j \<and> j < length rs \<longrightarrow> seeders (rs ! i) \<ge> seeders (rs ! j))"

text \<open>
  The concatenation of the results of the backends that succeeded: the outcomes of the
  enabled scrapers in their order, those that failed left out, whether they threw or
  returned a promise that was rejected.
\<close>

definition spec_successes :: "scraper list \<Rightarrow> string \<Rightarrow> media_type \<Rightarrow> torrent_result list" where
  "spec_successes allScrapers q kind =
     concat (List.map_filter
       (\<lambda>s. case scraper_search s q kind of Returns (Inr v) \<Rightarrow> Some v | _ \<Rightarrow> None)
       (filter scraper_enabled allScrapers))"

text \<open>The error of the first enabled scraper whose call throws before it has returned a
  promise, if there is one.\<close>

definition firstThrown :: "scraper list \<Rightarrow> string \<Rightarrow> media_type \<Rightarrow> error option" where
  "firstThrown allScrapers q kind =
     (case List.map_filter
             (\<lambda>s. case scraper_search s q kind of Throws e \<Rightarrow> Some e | Returns p \<Rightarrow> None)
             (filter scraper_enabled allScrapers) of
        [] \<Rightarrow> None
      | e # es \<Rightarrow> Some e)"

text \<open>The order of the counts turned around, to sort in descending order.\<close>

definition mirror :: "xint \<Rightarrow> xint" where
  "mirror x = (case x of NegInf \<Rightarrow> PosInf | Fin a \<Rightarrow> Fin (- a) | PosInf \<Rightarrow> NegInf)"

text \<open>The number that a decimal literal \<open>ip.fp\<close> denotes.\<close>

definition decimalValue :: "string \<Rightarrow> string \<Rightarrow> rat" where
  "decimalValue ip fp =
     of_nat (digitsValue 10 ip) + of_nat (digitsValue 10 fp) / of_nat (10 ^ length fp)"

text \<open>The product of a double and a multiplier without a second rounding: the exact
  product, or an infinity when that is beyond the doubles.\<close>

definition exactTimes :: "jsnum \<Rightarrow> rat \<Rightarrow> jsnum" where
  "exactTimes x m =
     (case x of
        Num v \<Rightarrow> if 2 ^ 1024 \<le> v * m then Infinity else Num (v * m)
      | y \<Rightarrow> y)"

definition searchKind :: "media_search \<Rightarrow> media_type" where
  "searchKind d = (case search_type d of None \<Rightarrow> Movie | Some t \<Rightarrow> t)"

section \<open>Sample values\<close>

text \<open>The transfer of the specification's example: a 500 MB \<open>mp4\<close>, a 1 KB \<open>nfo\<close> and a
  1.2 GB \<open>mkv\<close>, one link for each file.\<close>

definition sampleFiles :: "rd_file list" where
  "sampleFiles =
     [\<lparr> file_id = 1, path = ''/Show/episode.mp4'', bytes = 524288000, selected = 1 \<rparr>,
      \<lparr> file_id = 2, path = ''/Show/release.nfo'', bytes = 1024, selected = 1 \<rparr>,
      \<lparr> file_id = 3, path = ''/Show/episode.MKV'', bytes = 1288490188, selected = 1 \<rparr>]"

definition sampleTorrent :: rd_torrent where
  "sampleTorrent =
     \<lparr> torrent_id = ''T1'', filename = ''Show'',
       hash = ''0123456789abcdef0123456789abcdef01234567'', torrent_bytes = 1812779212,
       torrent_status = ''downloaded'', added = ''2024-01-01T00:00:00.000Z'',
       links = [''L0'', ''L1'', ''L2''], ended = None, torrent_progress = 100,
       files = Some sampleFiles \<rparr>"

text \<open>The same torrent reported dead, with a status that names a member of every
  object, without a file list, and with a single link for two files.\<close>

definition deadTorrent :: rd_torrent where
  "deadTorrent = sampleTorrent\<lparr> torrent_status := ''dead'', links := [], torrent_progress := 0 \<rparr>"

definition oddTorrent :: rd_torrent where
  "oddTorrent = sampleTorrent\<lparr> torrent_status := ''constructor'' \<rparr>"

definition noFilesTorrent :: rd_torrent where
  "noFilesTorrent = sampleTorrent\<lparr> links := [''L0''], files := None \<rparr>"

definition twoFiles :: "rd_file list" where
  "twoFiles =
     [\<lparr> file_id = 1, path = ''/Show/release.nfo'', bytes = 1024, selected = 1 \<rparr>,
      \<lparr> file_id = 2, path = ''/Show/episode.mkv'', bytes = 1288490188, selected = 1 \<rparr>]"

definition shortLinksTorrent :: rd_torrent where
  "shortLinksTorrent = sampleTorrent\<lparr> links := [''L0''], files := Some twoFiles \<rparr>"

definition textFiles :: "rd_file list" where
  "textFiles =
     [\<lparr> file_id = 1, path = ''/Docs/release.nfo'', bytes = 1024, selected = 1 \<rparr>,
      \<lparr> file_id = 2, path = ''/Docs/notes.txt'', bytes = 2048, selected = 1 \<rparr>]"

definition noVideoTorrent :: rd_torrent where
  "noVideoTorrent = sampleTorrent\<lparr> links := [''L0'', ''L1''], files := Some textFiles \<rparr>"

definition downloadingTorrent :: rd_torrent where
  "downloadingTorrent =
     sampleTorrent\<lparr> torrent_status := ''downloading'', links := [], torrent_progress := 40 \<rparr>"

definition noLinksTorrent :: rd_torrent where
  "noLinksTorrent = sampleTorrent\<lparr> links := [] \<rparr>"

definition noCredentials :: debrid_credentials where
  "noCredentials = \<lparr> cred_apiKey = None, accessToken = None, refreshToken = None \<rparr>"

definition rejectedCredentials :: debrid_credentials where
  "rejectedCredentials = \<lparr> cred_apiKey = Some ''BAD'', accessToken = None, refreshToken = None \<rparr>"

definition sampleUser :: rd_user where
  "sampleUser =
     \<lparr> user_id = 42, username = ''someone'', email = ''someone@example.org'',
       user_premium = 1, expiration = ''2030-01-01T00:00:00.000Z'' \<rparr>"

text \<open>A service that knows one torrent, unrestricts every link and answers \<open>/user\<close> as
  given.\<close>

definition sampleService :: "error + rd_user \<Rightarrow> rd_torrent \<Rightarrow> service" where
  "sampleService user t =
     \<lparr> getUser = (\<lambda>h. user),
       postAddMagnet = (\<lambda>m. Inr (torrent_id t)),
       getTorrentInfo = (\<lambda>i. Inr t),
       postSelectFiles = (\<lambda>i fs. Inr ()),
       postUnrestrictLink =
         (\<lambda>l. Inr \<lparr> unrestrict_id = ''U1'', unrestrict_filename = ''file'',
                     download = ''https://download.example/'' @ l, streamable = 1 \<rparr>),
       now = ''2024-01-01T00:00:00.000Z'' \<rparr>"

definition freshProvider :: provider where
  "freshProvider =
     \<lparr> enabled = True, apiKey = None, authorization = None, account = None, requests = [] \<rparr>"

definition signedInProvider :: provider where
  "signedInProvider = freshProvider\<lparr> apiKey := Some ''KEY'', authorization := Some ''Bearer KEY'' \<rparr>"

definition sampleResult :: "string \<Rightarrow> int \<Rightarrow> torrent_result" where
  "sampleResult name n =
     \<lparr> tr_id = ''0123456789abcdef0123456789abcdef01234567'', tr_name = name, tr_size = Num 0,
       seeders = Fin n, leechers = Fin 0,
       tr_magnetUri = ''magnet:?xt=urn:btih:0123456789abcdef0123456789abcdef01234567'',
       infoHash = ''0123456789abcdef0123456789abcdef01234567'', uploadDate = None,
       quality = None, source = None, tr_providerId = ''sample'' \<rparr>"

definition sampleScraper :: "string \<Rightarrow> bool \<Rightarrow> torrent_result list call \<Rightarrow> scraper" where
  "sampleScraper name on outcome =
     \<lparr> scraper_id = name, scraper_enabled = on,
       scraper_search = (\<lambda>q t. outcome),
       scraper_searchEpisode = (\<lambda>n s e. outcome) \<rparr>"

text \<open>Three scrapers, the second of which fails with a rejected promise; the first and
  the third both offer a candidate with fifty seeders.\<close>

definition threeScrapers :: "scraper list" where
  "threeScrapers =
     [sampleScraper ''a'' True (Returns (Inr [sampleResult ''a1'' 5, sampleResult ''a2'' 50])),
      sampleScraper ''b'' True (Returns (Inl (RemoteError ''timeout''))),
      sampleScraper ''c'' True (Returns (Inr [sampleResult ''c1'' 50, sampleResult ''c2'' 7]))]"

text \<open>The same with a second scraper whose \<open>search\<close> is not \<open>async\<close> and throws.\<close>

definition throwingScrapers :: "scraper list" where
  "throwingScrapers =
     [sampleScraper ''a'' True (Returns (Inr [sampleResult ''a1'' 5, sampleResult ''a2'' 50])),
      sampleScraper ''b'' True (Throws (RemoteError ''timeout'')),
      sampleScraper ''c'' True (Returns (Inr [sampleResult ''c1'' 50, sampleResult ''c2'' 7]))]"

definition disabledScrapers :: "scraper list" where
  "disabledScrapers = [sampleScraper ''a'' False (Returns (Inr [sampleResult ''a1'' 5]))]"

definition sampleSearch :: media_search where
  "sampleSearch = \<lparr> query = ''foo'', year = None, search_type = None \<rparr>"

definition sampleRow :: "string \<Rightarrow> string \<Rightarrow> row" where
  "sampleRow name seedText =
     \<lparr> titleText = name,
       torrentLink = Some ''http://itorrents.org/torrent/0123456789ABCDEF0123456789ABCDEF01234567/x'',
       sizeCell = ''1.5 GB'', seedCell = seedText, leechCell = ''3'', dateCell = ''-'' \<rparr>"

text \<open>An index that answers every request with an error that tells the URL.\<close>

definition echoIndex :: "string \<Rightarrow> error + row list" where
  "echoIndex url = Inl (RemoteError url)"

text \<open>An index that answers every request with a page of two rows.\<close>

definition samplePage :: "string \<Rightarrow> error + row list" where
  "samplePage url = Inr [sampleRow ''One'' ''5'', sampleRow ''Two'' ''15'']"

section \<open>Rounding to a double\<close>

lemma pow_le_of_nat: "b ^ k \<le> (n::nat) \<Longrightarrow> (of_nat b :: rat) ^ k \<le> of_nat n"
  using of_nat_mono [of "b ^ k" n, where 'a = rat] by simp

lemma of_nat_le_pow: "(n::nat) \<le> b ^ k \<Longrightarrow> of_nat n \<le> (of_nat b :: rat) ^ k"
  using of_nat_mono [of n "b ^ k", where 'a = rat] by simp

lemma magnitude_bounds:
  assumes "0 < a" and "1 < b"
  shows "of_nat b powi magnitude b a \<le> a \<and> a < of_nat b powi (magnitude b a + 1)"
proof (cases "1 \<le> a")
  case True
  define n where "n = nat \<lfloor>a\<rfloor>"
  define fl where "fl = floorlog b n"
  from True have n: "0 < n" by (simp add: n_def)
  from floorlog_bounds [of n b] n assms(2) have bd: "b ^ (fl - 1) \<le> n" "n < b ^ fl"
    by (simp_all add: fl_def)
  from n assms(2) have fl: "0 < fl" by (simp add: fl_def floorlog_def)
  from True have e: "magnitude b a = int fl - 1" by (simp add: magnitude_def n_def fl_def)
  from fl have e': "magnitude b a = int (fl - 1)" unfolding e by simp
  have na: "rat_of_nat n \<le> a" "a < rat_of_nat n + 1"
    using True by (simp_all add: n_def) linarith+
  have "(of_nat b :: rat) ^ (fl - 1) \<le> a" by (rule order_trans [OF pow_le_of_nat [OF bd(1)] na(1)])
  then have 1: "of_nat b powi magnitude b a \<le> a" unfolding e' by simp
  from bd(2) have "n + 1 \<le> b ^ fl" by simp
  from of_nat_le_pow [OF this] have "rat_of_nat n + 1 \<le> of_nat b ^ fl" by simp
  with na(2) have "a < of_nat b ^ fl" by (rule less_le_trans)
  moreover from fl have "magnitude b a + 1 = int fl" unfolding e by simp
  ultimately have 2: "a < of_nat b powi (magnitude b a + 1)" by simp
  from 1 2 show ?thesis ..
next
  case False
  define c where "c = 1 / a"
  define n where "n = nat (\<lceil>c\<rceil> - 1)"
  define k where "k = floorlog b n"
  have bp: "(0::rat) < of_nat b" using assms(2) by simp
  from False assms have c1: "1 < c" by (simp add: c_def)
  then have c2: "2 \<le> \<lceil>c\<rceil>" by linarith
  then have n: "0 < n" by (simp add: n_def)
  from floorlog_bounds [of n b] n assms(2) have bd: "b ^ (k - 1) \<le> n" "n < b ^ k"
    by (simp_all add: k_def)
  from n assms(2) have k: "0 < k" by (simp add: k_def floorlog_def)
  from False have e: "magnitude b a = - int k" by (simp add: magnitude_def n_def k_def c_def)
  have nb: "rat_of_nat n < c" "c \<le> rat_of_nat n + 1"
    using c2 by (simp_all add: n_def) linarith+
  from bd(2) have "n + 1 \<le> b ^ k" by simp
  from of_nat_le_pow [OF this] have "rat_of_nat n + 1 \<le> of_nat b ^ k" by simp
  with nb(2) have "c \<le> of_nat b ^ k" by (rule order_trans)
  with assms(1) bp have "1 / of_nat b ^ k \<le> a" unfolding c_def by (simp add: field_simps)
  then have 1: "of_nat b powi magnitude b a \<le> a" unfolding e by (simp add: power_int_minus_divide)
  have "of_nat b ^ (k - 1) < c" by (rule le_less_trans [OF pow_le_of_nat [OF bd(1)] nb(1)])
  with assms(1) bp have "a < 1 / of_nat b ^ (k - 1)" unfolding c_def by (simp add: field_simps)
  moreover from k have "magnitude b a + 1 = - int (k - 1)" unfolding e by simp
  ultimately have 2: "a < of_nat b powi (magnitude b a + 1)" by (simp add: power_int_minus_divide)
  from 1 2 show ?thesis ..
qed

lemma magnitude_unique:
  assumes "0 < a" and "1 < b" and "of_nat b powi e \<le> a" and "a < of_nat b powi (e + 1)"
  shows "magnitude b a = e"
proof (rule ccontr)
  assume ne: "magnitude b a \<noteq> e"
  from magnitude_bounds [OF assms(1,2)]
  have bd: "of_nat b powi magnitude b a \<le> a" "a < of_nat b powi (magnitude b a + 1)" by simp_all
  from assms(2) have b1: "(1::rat) \<le> of_nat b" by simp
  show False
  proof (cases "magnitude b a < e")
    case True
    then have "magnitude b a + 1 \<le> e" by simp
    from power_int_increasing [OF this b1] bd(2) assms(3) show False by simp
  next
    case False
    with ne have "e + 1 \<le> magnitude b a" by simp
    from power_int_increasing [OF this b1] bd(1) assms(4) show False by simp
  qed
qed

lemma exponent_bounds:
  assumes "0 < a"
  shows "2 powi magnitude 2 a \<le> a" and "a < 2 powi (magnitude 2 a + 1)"
  using magnitude_bounds [OF assms, of 2] by simp_all

lemma exponent_unique:
  assumes "0 < a" and "2 powi e \<le> a" and "a < 2 powi (e + 1)"
  shows "magnitude 2 a = e"
  using magnitude_unique [OF assms(1), of 2 e] assms(2,3) by simp

lemma decimal_exponent_unique:
  assumes "0 < a" and "10 powi e \<le> a" and "a < 10 powi (e + 1)"
  shows "magnitude 10 a = e"
  using magnitude_unique [OF assms(1), of 10 e] assms(2,3) by simp

lemma roundHalfEven_of_int [simp]: "roundHalfEven (of_int z) = z"
  by (simp add: roundHalfEven_def)

lemma roundHalfEven_le: "roundHalfEven x \<le> \<lfloor>x\<rfloor> + 1"
  by (simp add: roundHalfEven_def Let_def)

lemma roundHalfEven_ge: "\<lfloor>x\<rfloor> \<le> roundHalfEven x"
  by (simp add: roundHalfEven_def Let_def)

lemma roundHalfEven_near:
  assumes "\<bar>x - of_int m\<bar> < 1 / 2"
  shows "roundHalfEven x = m"
proof -
  define f where "f = \<lfloor>x\<rfloor>"
  have fl: "of_int f \<le> x" "x < of_int f + 1" unfolding f_def by linarith+
  from assms have m: "of_int m - 1 / 2 < x" "x < of_int m + 1 / 2" by linarith+
  from fl m have "(of_int f :: rat) < of_int m + 1 / 2" "(of_int m :: rat) - 1 / 2 < of_int f + 1"
    by linarith+
  then have "(of_int f :: rat) < of_int (m + 1)" "(of_int (m - 1) :: rat) < of_int (f + 1)"
    by simp_all
  then have "f < m + 1" "m - 1 < f + 1" by (simp_all only: of_int_less_iff)
  then consider "f = m" | "f = m - 1" by linarith
  then show ?thesis
  proof cases
    case 1
    with m(2) have "x - of_int f < 1 / 2" by simp
    with 1 show ?thesis unfolding roundHalfEven_def Let_def f_def [symmetric] by simp
  next
    case 2
    with m(1) have "1 / 2 < x - of_int f" by simp
    with 2 show ?thesis unfolding roundHalfEven_def Let_def f_def [symmetric] by simp
  qed
qed

lemma roundHalfEven_tie:
  assumes "x = of_int f + 1 / 2"
  shows "roundHalfEven x = (if even f then f else f + 1)"
proof -
  have "\<lfloor>x\<rfloor> = f" unfolding assms by linarith
  then show ?thesis unfolding roundHalfEven_def Let_def by (simp add: assms)
qed

lemma rounded_exact:
  assumes "v = of_int z * 2 powi quantum v"
  shows "rounded v = v"
proof -
  have "v / 2 powi quantum v = of_int z"
    by (subst assms) simp
  then show ?thesis unfolding rounded_def using assms by simp
qed

lemma exponent_of_int_nonneg:
  assumes "1 \<le> m"
  shows "0 \<le> magnitude 2 (of_int m)"
proof (rule ccontr)
  assume "\<not> 0 \<le> magnitude 2 (of_int m)"
  then have "magnitude 2 (of_int m) + 1 \<le> 0" by simp
  then have "(2::rat) powi (magnitude 2 (of_int m) + 1) \<le> 2 powi 0"
    by (intro power_int_increasing) simp_all
  moreover from assms have "0 < (of_int m :: rat)" by simp
  from exponent_bounds(2) [OF this] have "of_int m < (2::rat) powi (magnitude 2 (of_int m) + 1)" .
  ultimately have "(of_int m :: rat) < 1" by simp
  with assms show False by simp
qed

lemma exponent_scaled:
  assumes "0 < a"
  shows "magnitude 2 (a * 2 powi j) = magnitude 2 a + j"
proof -
  note b = exponent_bounds [OF assms]
  have p: "(0::rat) < 2 powi j" by (simp add: zero_less_power_int)
  from assms p have 0: "0 < a * 2 powi j" by simp
  have 1: "2 powi (magnitude 2 a + j) \<le> a * 2 powi j"
    using b(1) p by (simp add: power_int_add)
  have "a * 2 powi j < 2 powi (magnitude 2 a + 1) * 2 powi j"
    using b(2) p by simp
  then have 2: "a * 2 powi j < 2 powi (magnitude 2 a + j + 1)"
    by (simp add: power_int_add algebra_simps)
  from exponent_unique [OF 0 1 2] show ?thesis .
qed

text \<open>A whole number of at most 53 bits times a power of two that is not below the
  smallest place is a double.\<close>

lemma rounded_grid:
  assumes m: "1 \<le> m" "m \<le> 2 ^ 53" and qe: "- 1074 \<le> qe"
  shows "rounded (of_int m * 2 powi qe) = of_int m * 2 powi qe"
proof -
  define v :: rat where "v = of_int m * 2 powi qe"
  define p where "p = magnitude 2 (of_int m)"
  from m(1) have mpos: "0 < (of_int m :: rat)" by simp
  from exponent_bounds [OF mpos]
  have pb: "2 powi p \<le> (of_int m :: rat)" "(of_int m :: rat) < 2 powi (p + 1)"
    by (simp_all add: p_def)
  from exponent_of_int_nonneg [OF m(1)] have p0: "0 \<le> p" by (simp add: p_def)
  have ev: "magnitude 2 v = p + qe"
    unfolding v_def p_def by (rule exponent_scaled [OF mpos])
  have p53: "p \<le> 53"
  proof (rule ccontr)
    assume "\<not> p \<le> 53"
    then have "54 \<le> p" by simp
    then have "(2::rat) powi 54 \<le> 2 powi p" by (intro power_int_increasing) simp_all
    with pb(1) have "(2::rat) ^ 54 \<le> of_int m" by simp
    moreover from m(2) have "(of_int m :: rat) \<le> of_int (2 ^ 53)" by (simp only: of_int_le_iff)
    ultimately show False by simp
  qed
  show ?thesis
  proof (cases "p = 53")
    case True
    with pb(1) have "(2::rat) ^ 53 \<le> of_int m" by simp
    moreover from m(2) have "(of_int m :: rat) \<le> of_int (2 ^ 53)" by (simp only: of_int_le_iff)
    ultimately have m53: "(of_int m :: rat) = 2 ^ 53" by simp
    from True ev qe have u: "quantum v = qe + 1" by (simp add: quantum_def)
    have "v = 2 powi 52 * 2 powi (qe + 1)"
      unfolding v_def m53 by (simp add: power_int_add)
    then have "v = of_int (2 ^ 52) * 2 powi quantum v" unfolding u by simp
    from rounded_exact [OF this] show ?thesis unfolding v_def .
  next
    case False
    with p53 have "p \<le> 52" by simp
    with ev qe have u: "quantum v \<le> qe" by (simp add: quantum_def)
    define d where "d = nat (qe - quantum v)"
    from u have "qe = quantum v + int d" by (simp add: d_def)
    then have "(2::rat) powi qe = 2 ^ d * 2 powi quantum v"
      by (metis power_int_add power_int_of_nat mult.commute zero_neq_numeral)
    then have "v = of_int (m * 2 ^ d) * 2 powi quantum v"
      unfolding v_def by simp
    from rounded_exact [OF this] show ?thesis unfolding v_def .
  qed
qed

lemma mantissa_le:
  assumes "0 < a"
  shows "roundHalfEven (a / 2 powi quantum a) \<le> 2 ^ 53"
proof -
  note b = exponent_bounds(2) [OF assms]
  have q: "magnitude 2 a + 1 - quantum a \<le> 53" by (simp add: quantum_def)
  have p: "(0::rat) < 2 powi quantum a" by (simp add: zero_less_power_int)
  from b p have "a / 2 powi quantum a < 2 powi (magnitude 2 a + 1) / 2 powi quantum a"
    by (simp add: divide_strict_right_mono)
  also have "\<dots> = 2 powi (magnitude 2 a + 1 - quantum a)"
    by (simp add: power_int_diff)
  also from q have "\<dots> \<le> 2 powi 53" by (intro power_int_increasing) simp_all
  finally have "a / 2 powi quantum a < of_int (2 ^ 53)" by simp
  then have "\<lfloor>a / 2 powi quantum a\<rfloor> < 2 ^ 53" by (simp only: floor_less_iff)
  with roundHalfEven_le [of "a / 2 powi quantum a"] show ?thesis by linarith
qed

lemma rounded_scale:
  assumes "0 < a" and "0 < rounded a"
  shows "rounded (rounded a * 2 ^ j) = rounded a * 2 ^ j"
proof -
  define m where "m = roundHalfEven (a / 2 powi quantum a)"
  have r: "rounded a = of_int m * 2 powi quantum a" by (simp add: rounded_def m_def)
  have p: "(0::rat) < 2 powi quantum a" by (simp add: zero_less_power_int)
  from assms(2) p have "0 < (of_int m :: rat)" unfolding r by (simp add: zero_less_mult_iff)
  then have m1: "1 \<le> m" by simp
  from mantissa_le [OF assms(1)] have m2: "m \<le> 2 ^ 53" by (simp add: m_def)
  have q: "- 1074 \<le> quantum a + int j" by (simp add: quantum_def)
  have "rounded a * 2 ^ j = of_int m * 2 powi (quantum a + int j)"
    unfolding r by (simp add: power_int_add)
  with rounded_grid [OF m1 m2 q] show ?thesis by simp
qed

lemma rounded_nonneg: "0 < a \<Longrightarrow> 0 \<le> rounded a"
proof -
  assume "0 < a"
  then have "0 \<le> a / 2 powi quantum a" by (simp add: zero_le_power_int)
  then have "0 \<le> \<lfloor>a / 2 powi quantum a\<rfloor>" by simp
  with roundHalfEven_ge [of "a / 2 powi quantum a"]
  have "0 \<le> roundHalfEven (a / 2 powi quantum a)" by linarith
  then show ?thesis unfolding rounded_def by (simp add: zero_le_power_int)
qed

text \<open>Multiplying a double by a power of two is exact, short of overflow.\<close>

lemma toDouble_times_pow2:
  assumes "toDouble q = Num v" and "0 \<le> q"
  shows "toDouble (v * 2 ^ j) = (if 2 powi 1024 \<le> v * 2 ^ j then Infinity else Num (v * 2 ^ j))"
proof (cases "q = 0")
  case True
  with assms(1) have "v = 0" by (simp add: toDouble_def)
  then show ?thesis by (simp add: toDouble_def)
next
  case False
  with assms(2) have q: "0 < q" by simp
  with assms(1) have v: "v = rounded q"
    by (simp add: toDouble_def split: if_splits)
  show ?thesis
  proof (cases "v = 0")
    case True
    then show ?thesis by (simp add: toDouble_def)
  next
    case False
    with rounded_nonneg [OF q] v have vp: "0 < rounded q" by simp
    then have "0 < rounded q * 2 ^ j" by simp
    with rounded_scale [OF q vp, of j] show ?thesis
      unfolding v by (simp add: toDouble_def)
  qed
qed

text \<open>Certificates for the rounding of a given number: the binary exponent, and the
  significand with the distance that makes it the nearest.\<close>

lemma rounded_near:
  assumes "0 < a" and "2 powi e \<le> a" and "a < 2 powi (e + 1)"
    and "qe = max (e - 52) (- 1074)" and "\<bar>a / 2 powi qe - of_int m\<bar> < 1 / 2"
  shows "rounded a = of_int m * 2 powi qe"
proof -
  from exponent_unique [OF assms(1,2,3)] assms(4) have "quantum a = qe" by (simp add: quantum_def)
  with roundHalfEven_near [OF assms(5)] show ?thesis by (simp add: rounded_def)
qed

lemma rounded_tie:
  assumes "0 < a" and "2 powi e \<le> a" and "a < 2 powi (e + 1)"
    and "qe = max (e - 52) (- 1074)" and "a / 2 powi qe = of_int f + 1 / 2"
  shows "rounded a = of_int (if even f then f else f + 1) * 2 powi qe"
proof -
  from exponent_unique [OF assms(1,2,3)] assms(4) have "quantum a = qe" by (simp add: quantum_def)
  with roundHalfEven_tie [OF assms(5)] show ?thesis by (simp add: rounded_def)
qed

lemma toDouble_pos:
  "0 < q \<Longrightarrow> toDouble q = (if 2 powi 1024 \<le> rounded q then Infinity else Num (rounded q))"
  by (simp add: toDouble_def)

lemma toDouble_neg:
  "q < 0 \<Longrightarrow> toDouble q
     = (if 2 powi 1024 \<le> rounded (- q) then NegInfinity else Num (- rounded (- q)))"
  by (simp add: toDouble_def)

text \<open>The whole numbers up to \<open>2^53\<close> are doubles.\<close>

lemma toDouble_of_int:
  assumes "\<bar>z\<bar> \<le> 2 ^ 53"
  shows "toDouble (of_int z) = Num (of_int z)"
proof -
  have small: "\<not> (2::rat) powi 1024 \<le> of_int \<bar>z\<bar>"
  proof -
    from assms have "(of_int \<bar>z\<bar> :: rat) \<le> of_int (2 ^ 53)" by (simp only: of_int_le_iff)
    also have "(of_int (2 ^ 53) :: rat) < 2 ^ 1024" by simp
    finally show ?thesis by simp
  qed
  consider "z = 0" | "0 < z" | "z < 0" by linarith
  then show ?thesis
  proof cases
    case 1
    then show ?thesis by (simp add: toDouble_def)
  next
    case 2
    then have 1: "1 \<le> z" and a: "\<bar>z\<bar> = z" by simp_all
    from assms a have le: "z \<le> 2 ^ 53" by simp
    from rounded_grid [OF 1 le, of 0] have "rounded (of_int z) = of_int z" by simp
    moreover from 2 have "(0::rat) < of_int z" by simp
    ultimately show ?thesis using small a by (simp add: toDouble_pos)
  next
    case 3
    then have 1: "1 \<le> - z" and a: "\<bar>z\<bar> = - z" by simp_all
    from assms a have le: "- z \<le> 2 ^ 53" by simp
    from rounded_grid [OF 1 le, of 0] have "rounded (- of_int z) = - of_int z" by simp
    moreover from 3 have "(of_int z :: rat) < 0" by simp
    ultimately show ?thesis using small a by (simp add: toDouble_neg)
  qed
qed

lemma toDouble_dyadic:
  assumes "1 \<le> m" and "m \<le> 2 ^ 53" and "d \<le> 1074"
  shows "toDouble (of_int m / 2 ^ d) = Num (of_int m / 2 ^ d)"
proof -
  have e: "(of_int m :: rat) / 2 ^ d = of_int m * 2 powi (- int d)"
    by (simp add: power_int_minus_divide)
  from assms(3) have "- 1074 \<le> - int d" by simp
  from rounded_grid [OF assms(1,2) this]
  have r: "rounded (of_int m / 2 ^ d) = of_int m / 2 ^ d" unfolding e .
  from assms(1) have p: "0 < (of_int m :: rat) / 2 ^ d" by simp
  have "(of_int m :: rat) / 2 ^ d \<le> of_int m" using assms(1)
    by (simp add: divide_le_eq_1 field_simps mult_le_cancel_left1)
  also from assms(2) have "(of_int m :: rat) \<le> of_int (2 ^ 53)" by (simp only: of_int_le_iff)
  also have "(of_int (2 ^ 53) :: rat) < 2 ^ 1024" by simp
  finally have "\<not> (2::rat) powi 1024 \<le> of_int m / 2 ^ d" by simp
  with r show ?thesis by (simp add: toDouble_pos [OF p])
qed

text \<open>The difference of two whole numbers is positive after rounding exactly when it is
  before.\<close>

lemma positive_toDouble_of_int: "positive (toDouble (of_int z)) \<longleftrightarrow> 0 < z"
proof (cases "0 < z")
  case False
  then have "(of_int z :: rat) \<le> 0" by simp
  then show ?thesis using False rounded_nonneg [of "\<bar>of_int z\<bar>"]
    by (auto simp: toDouble_def positive_def)
next
  case True
  define a :: rat where "a = of_int z"
  from True have z1: "1 \<le> z" by simp
  from True have a: "0 < a" by (simp add: a_def)
  from exponent_of_int_nonneg [OF z1] have "quantum a \<le> magnitude 2 a"
    by (simp add: quantum_def a_def)
  then have "(2::rat) powi quantum a \<le> 2 powi magnitude 2 a"
    by (intro power_int_increasing) simp_all
  also note exponent_bounds(1) [OF a]
  finally have le: "2 powi quantum a \<le> a" .
  have p: "(0::rat) < 2 powi quantum a" by (simp add: zero_less_power_int)
  from le p have "1 \<le> a / 2 powi quantum a" by (simp add: le_divide_eq)
  then have "1 \<le> \<lfloor>a / 2 powi quantum a\<rfloor>" by linarith
  with roundHalfEven_ge [of "a / 2 powi quantum a"]
  have "0 < roundHalfEven (a / 2 powi quantum a)" by linarith
  then have "0 < (of_int (roundHalfEven (a / 2 powi quantum a)) :: rat)" by simp
  from mult_pos_pos [OF this p] have "0 < rounded a" unfolding rounded_def .
  then have "positive (toDouble a)" by (simp add: toDouble_pos [OF a] positive_def)
  with True show ?thesis by (simp add: a_def)
qed

lemma toDouble_11_10: "toDouble (11 / 10) = Num (4953959590107546 / 2 ^ 52)"
proof -
  have "rounded (11 / 10) = of_int 4953959590107546 * 2 powi (- 52)"
    by (rule rounded_near [where e = 0]) simp_all
  then show ?thesis by (simp add: toDouble_pos power_int_minus_divide)
qed


section \<open>The notation of numbers\<close>

lemma natToString_0: "natToString 0 = ''0''"
  by (subst natToString.simps) (simp add: digitChar_def)

lemma rounded_ge_binade:
  assumes "1 \<le> a"
  shows "2 powi magnitude 2 a \<le> rounded a"
proof -
  define e where "e = magnitude 2 a"
  define q where "q = quantum a"
  from assms have a: "0 < a" by simp
  have e0: "0 \<le> e"
  proof (rule ccontr)
    assume "\<not> 0 \<le> e"
    then have "e + 1 \<le> 0" by simp
    then have "(2::rat) powi (e + 1) \<le> 2 powi 0" by (intro power_int_increasing) simp_all
    with exponent_bounds(2) [OF a] assms show False by (simp add: e_def)
  qed
  then have qe: "q \<le> e" by (simp add: q_def quantum_def e_def)
  have p: "(0::rat) < 2 powi q" by (simp add: zero_less_power_int)
  define d where "d = nat (e - q)"
  from qe have eq: "e = q + int d" by (simp add: d_def)
  have pe: "(2::rat) powi e = of_int (2 ^ d) * 2 powi q"
    unfolding eq by (simp add: power_int_add)
  from exponent_bounds(1) [OF a] have "of_int (2 ^ d) * 2 powi q \<le> a"
    unfolding pe [symmetric] e_def .
  with p have "of_int (2 ^ d) \<le> a / 2 powi q" by (simp add: le_divide_eq)
  then have "2 ^ d \<le> \<lfloor>a / 2 powi q\<rfloor>" by (simp only: le_floor_iff)
  with roundHalfEven_ge [of "a / 2 powi q"] have "2 ^ d \<le> roundHalfEven (a / 2 powi q)"
    by linarith
  then have "(of_int (2 ^ d) :: rat) \<le> of_int (roundHalfEven (a / 2 powi q))"
    by (simp only: of_int_le_iff)
  from mult_right_mono [OF this less_imp_le [OF p]]
  have "(2::rat) powi e \<le> of_int (roundHalfEven (a / 2 powi q)) * 2 powi q" unfolding pe .
  then show ?thesis by (simp add: rounded_def q_def e_def)
qed

text \<open>Below \<open>2^53\<close> no other whole number reads as a given one.\<close>

lemma toDouble_of_nat_eq:
  assumes "m < 2 ^ 53"
  shows "toDouble (of_nat c) = Num (of_nat m) \<longleftrightarrow> c = m"
proof (cases "c \<le> 2 ^ 53")
  case True
  then have "\<bar>int c\<bar> \<le> 2 ^ 53" by (simp add: of_nat_le_iff [of c "2 ^ 53", where 'a = int, simplified])
  from toDouble_of_int [OF this] show ?thesis by simp
next
  case False
  then have c: "2 ^ 53 < c" by simp
  define a :: rat where "a = of_nat c"
  from c have "(of_nat (2 ^ 53) :: rat) < of_nat c" by (simp only: of_nat_less_iff)
  then have a53: "2 ^ 53 < a" by (simp add: a_def)
  then have a1: "1 \<le> a" and a0: "0 < a" by simp_all
  have e: "53 \<le> magnitude 2 a"
  proof (rule ccontr)
    assume "\<not> 53 \<le> magnitude 2 a"
    then have "magnitude 2 a + 1 \<le> 53" by simp
    then have "(2::rat) powi (magnitude 2 a + 1) \<le> 2 powi 53"
      by (intro power_int_increasing) simp_all
    with exponent_bounds(2) [OF a0] a53 show False by simp
  qed
  then have "(2::rat) powi 53 \<le> 2 powi magnitude 2 a" by (intro power_int_increasing) simp_all
  also note rounded_ge_binade [OF a1]
  finally have r: "2 ^ 53 \<le> rounded a" by simp
  from assms have "(of_nat m :: rat) < of_nat (2 ^ 53)" by (simp only: of_nat_less_iff)
  then have "(of_nat m :: rat) < 2 ^ 53" by simp
  with r have "rounded a \<noteq> of_nat m" by simp
  moreover from c assms have "c \<noteq> m" by simp
  ultimately show ?thesis unfolding a_def [symmetric] by (simp add: toDouble_pos [OF a0])
qed

lemma natToString_times10:
  assumes "0 < t"
  shows "natToString (t * 10) = natToString t @ ''0''"
  using assms by (subst natToString.simps) (simp add: digitChar_def)

lemma natToString_shift:
  assumes "0 < t"
  shows "natToString (t * 10 ^ j) = natToString t @ replicate j CHR ''0''"
proof (induction j)
  case 0
  show ?case by simp
next
  case (Suc j)
  from assms have "0 < t * 10 ^ j" by simp
  from natToString_times10 [OF this]
  have "natToString (t * 10 ^ j * 10) = natToString (t * 10 ^ j) @ ''0''" .
  moreover have "t * 10 ^ Suc j = t * 10 ^ j * 10" by simp
  ultimately have "natToString (t * 10 ^ Suc j) = natToString (t * 10 ^ j) @ ''0''"
    by (simp only:)
  with Suc show ?case by (simp add: replicate_append_same)
qed

text \<open>
  A whole number below \<open>2^53\<close> is a double, and no digit string that denotes another
  whole number reads back as it: its shortest digits are those of its decimal notation
  without the zeros at the end, and its notation is the decimal one.
\<close>

lemma formatDigits_shortestDigits_of_nat:
  assumes "0 < m" and "m < 2 ^ 53"
  shows "formatDigits (shortestDigits (of_nat m)) = natToString m"
proof -
  define x :: rat where "x = of_nat m"
  define n where "n = magnitude 10 x + 1"
  from assms(1) have x0: "0 < x" and x1: "1 \<le> x" by (simp_all add: x_def)
  from magnitude_bounds [OF x0, of 10]
  have b: "10 powi (n - 1) \<le> x" "x < 10 powi n" by (simp_all add: n_def)
  from assms(2) have "(of_nat m :: rat) < of_nat (2 ^ 53)" by (simp only: of_nat_less_iff)
  then have x53: "x < 2 ^ 53" by (simp add: x_def)
  have n1: "1 \<le> n"
  proof (rule ccontr)
    assume "\<not> 1 \<le> n"
    then have "n \<le> 0" by simp
    then have "(10::rat) powi n \<le> 10 powi 0" by (intro power_int_increasing) simp_all
    with b(2) x1 show False by simp
  qed
  have n16: "n \<le> 16"
  proof (rule ccontr)
    assume "\<not> n \<le> 16"
    then have "16 \<le> n - 1" by simp
    then have "(10::rat) powi 16 \<le> 10 powi (n - 1)" by (intro power_int_increasing) simp_all
    with b(1) x53 show False by simp
  qed
  define N where "N = nat n"
  from n1 have nN: "n = int N" by (simp add: N_def)
  from n1 n16 have N: "1 \<le> N" "N \<le> 16" by (simp_all add: N_def)
  from b(2) have "(of_nat m :: rat) < of_nat (10 ^ N)" by (simp add: x_def nN)
  then have mN: "m < 10 ^ N" by (simp only: of_nat_less_iff)
  have cand: "digitCandidates x n k
                = (if 10 ^ (N - k) dvd m then [int (m div 10 ^ (N - k))] else [])"
    if "k \<le> N" for k
  proof -
    define j where "j = N - k"
    define lo where "lo = m div 10 ^ j"
    from that have "n - int k = int j" by (simp add: nN j_def)
    then have scale: "(10::rat) powi (n - int k) = of_nat (10 ^ j)" by simp
    have fl: "\<lfloor>x / of_nat (10 ^ j)\<rfloor> = int lo"
      unfolding x_def lo_def by (rule floor_divide_of_nat_eq)
    have "of_int (int lo) * (of_nat (10 ^ j) :: rat) = of_nat (lo * 10 ^ j)" by simp
    moreover have "lo * 10 ^ j = m \<longleftrightarrow> 10 ^ j dvd m"
      unfolding lo_def by (metis dvd_div_mult_self dvd_triv_right)
    ultimately
    have c1: "toDouble (of_int (int lo) * of_nat (10 ^ j)) = Num x \<longleftrightarrow> 10 ^ j dvd m"
      unfolding x_def using toDouble_of_nat_eq [OF assms(2), of "lo * 10 ^ j"]
      by (simp only:)
    have "m < (lo + 1) * 10 ^ j"
      unfolding lo_def using dividend_less_times_div [of "10 ^ j" m]
      by (simp add: algebra_simps)
    then have ne: "(lo + 1) * 10 ^ j \<noteq> m" by simp
    have "of_int (int lo + 1) * (of_nat (10 ^ j) :: rat) = of_nat ((lo + 1) * 10 ^ j)"
      by (simp add: algebra_simps)
    then have c2: "toDouble (of_int (int lo + 1) * of_nat (10 ^ j)) \<noteq> Num x"
      unfolding x_def using toDouble_of_nat_eq [OF assms(2), of "(lo + 1) * 10 ^ j"] ne
      by simp
    show ?thesis
      unfolding digitCandidates_def Let_def scale fl
      using c1 c2 by (simp add: lo_def j_def)
  qed
  let ?P = "\<lambda>k. digitCandidates x n k \<noteq> []"
  have PN: "?P N" using cand [of N] by simp
  from N have Nin: "N \<in> set [1..<18]" by simp
  with PN have "find ?P [1..<18] \<noteq> None" by (auto simp: find_None_iff)
  then obtain k0 where f: "find ?P [1..<18] = Some k0" by auto
  then obtain i where i: "i < length [1..<18]" "?P ([1..<18] ! i)" "k0 = [1..<18] ! i"
    "\<forall>j<i. \<not> ?P ([1..<18] ! j)"
    unfolding find_Some_iff by blast
  from i(1,3) have k0: "k0 = 1 + i" by simp
  have kN: "k0 \<le> N"
  proof (rule ccontr)
    assume "\<not> k0 \<le> N"
    with k0 N(1) have "N - 1 < i" by simp
    with i(4) have "\<not> ?P ([1..<18] ! (N - 1))" by blast
    moreover from N have "[1..<18] ! (N - 1) = N" by simp
    ultimately show False using PN by simp
  qed
  define j where "j = N - k0"
  define s where "s = m div 10 ^ j"
  from i(2,3) have "?P k0" by simp
  with cand [OF kN] have d: "10 ^ j dvd m" and c: "digitCandidates x n k0 = [int s]"
    by (simp_all add: j_def s_def split: if_splits)
  from d have sm: "s * 10 ^ j = m" by (simp add: s_def)
  with assms(1) have s0: "0 < s" by (cases s) simp_all
  from kN have "N = k0 + j" by (simp add: j_def)
  with mN sm have "s * 10 ^ j < 10 ^ k0 * 10 ^ j" by (simp add: power_add)
  then have "s < 10 ^ k0" by simp
  then have sk: "int s \<noteq> 10 ^ k0"
    by (metis of_nat_less_iff of_nat_power of_nat_numeral less_irrefl)
  have cl: "closestDigits x n k0 [int s] = int s" by (simp add: closestDigits_def)
  have sd: "shortestDigits x = (k0, int s, n)"
    unfolding shortestDigits_def n_def [symmetric] Let_def f option.case c cl
    using sk by simp
  from kN k0 have "nat (n - int k0) = j" by (simp add: nN j_def)
  with kN n1 n16 have "formatDigits (k0, int s, n) = natToString s @ replicate j CHR ''0''"
    by (simp add: formatDigits_def nN)
  also have "\<dots> = natToString (s * 10 ^ j)" by (rule natToString_shift [OF s0, symmetric])
  finally show ?thesis unfolding sd x_def [symmetric] sm .
qed

lemma numberToString_of_nat:
  assumes "n < 2 ^ 53"
  shows "numberToString (Num (of_nat n)) = natToString n"
proof (cases "n = 0")
  case True
  then show ?thesis by (simp add: numberToString_def natToString_0)
next
  case False
  then have "0 < n" by simp
  from formatDigits_shortestDigits_of_nat [OF this assms] False show ?thesis
    by (simp add: numberToString_def)
qed

lemma numToString_nat:
  assumes "0 \<le> i" and "i < 2 ^ 53"
  shows "numToString i = natToString (nat i)"
proof -
  from assms have "nat i < 2 ^ 53" by (simp add: nat_less_iff)
  from numberToString_of_nat [OF this] assms(1) show ?thesis by (simp add: numToString_def)
qed












text \<open>A fraction is written with a decimal point.\<close>

lemma toDouble_8_5: "toDouble (8 / 5) = Num (7205759403792794 / 2 ^ 52)"
proof -
  have "rounded (8 / 5) = of_int 7205759403792794 * 2 powi (- 52)"
    by (rule rounded_near [where e = 0]) simp_all
  then show ?thesis by (simp add: toDouble_pos power_int_minus_divide)
qed

lemma toDouble_3_2: "toDouble (3 / 2) = Num (3 / 2)"
  using toDouble_dyadic [of 3 1] by simp

lemma magnitude_3_2: "magnitude 10 (3 / 2) = 0"
  by (rule decimal_exponent_unique) simp_all

lemma digitCandidates_3_2:
  "digitCandidates (3 / 2) 1 1 = []" "digitCandidates (3 / 2) 1 2 = [15]"
proof -
  have "toDouble 1 = Num 1" "toDouble 2 = Num 2"
    using toDouble_of_int [of 1] toDouble_of_int [of 2] by simp_all
  moreover have "\<lfloor>(3 / 2 :: rat) / 10 powi (1 - int 1)\<rfloor> = 1"
    by (simp add: floor_eq_iff)
  ultimately show "digitCandidates (3 / 2) 1 1 = []"
    unfolding digitCandidates_def Let_def by simp
  have "\<lfloor>(3 / 2 :: rat) / 10 powi (1 - int 2)\<rfloor> = 15"
    by (simp add: power_int_minus_divide)
  moreover have "(of_int 15 :: rat) * 10 powi (1 - int 2) = 3 / 2"
    "(of_int (15 + 1) :: rat) * 10 powi (1 - int 2) = 8 / 5"
    by (simp_all add: power_int_minus_divide)
  ultimately show "digitCandidates (3 / 2) 1 2 = [15]"
    unfolding digitCandidates_def Let_def
    by (simp only: filter.simps toDouble_3_2 toDouble_8_5) simp
qed

lemma shortestDigits_3_2: "shortestDigits (3 / 2) = (2, 15, 1)"
proof -
  have u: "[1..<18] = 1 # 2 # [3..<18]" by (simp add: upt_conv_Cons)
  have f: "find (\<lambda>k. digitCandidates (3 / 2) 1 k \<noteq> []) [1..<18] = Some 2"
    unfolding u find.simps digitCandidates_3_2 by simp
  have n: "magnitude 10 (3 / 2) + 1 = 1" by (simp add: magnitude_3_2)
  have c: "closestDigits (3 / 2) 1 2 [15] = 15"
    unfolding closestDigits_def by simp
  show ?thesis
    unfolding shortestDigits_def n Let_def f option.case digitCandidates_3_2 c
    by simp
qed

lemma numberToString_3_2: "numberToString (Num (3 / 2)) = ''1.5''"
proof -
  have "natToString 15 = ''15''" by code_simp
  then have "formatDigits (2, 15, 1) = ''1.5''"
    unfolding formatDigits_def by simp
  then show ?thesis
    unfolding numberToString_def jsnum.case shortestDigits_3_2 by simp
qed

section \<open>Episode search\<close>











text \<open>A season that is not whole passes the schema as well; its marker has a decimal
  point.\<close>

lemma searchEpisode_fraction:
  "searchEpisode echoIndex ''Foo'' (Num (3 / 2)) (Num 5)
     = Inl (RemoteError ''https://www.limetorrents.lol/search/all/Foo%20S1.5E05/seeds/1/'')"
proof -
  have "numberToString (Num (of_nat 5)) = natToString 5" by (rule numberToString_of_nat) simp
  moreover have "natToString 5 = ''5''" by code_simp
  ultimately have 5: "numberToString (Num 5) = ''5''" by simp
  have q: "''Foo'' @ '' S'' @ padStart 2 CHR ''0'' (numberToString (Num (3 / 2)))
     @ ''E'' @ padStart 2 CHR ''0'' (numberToString (Num 5)) = ''Foo S1.5E05''"
    by (simp add: numberToString_3_2 5 padStart_def)
  have e: "encodeURIComponent ''Foo S1.5E05'' = ''Foo%20S1.5E05''" by code_simp
  show ?thesis
    unfolding searchEpisode_def q search_def e
    by (simp add: echoIndex_def baseUrl_def)
qed

lemma numToString_samples: "numToString 1 = ''1''" "numToString 2 = ''2''" "numToString 3 = ''3''"
proof -
  have "numToString 1 = natToString (nat 1)" "numToString 2 = natToString (nat 2)"
    "numToString 3 = natToString (nat 3)"
    by (rule numToString_nat; simp)+
  moreover have "natToString (nat 1) = ''1''" "natToString (nat 2) = ''2''"
    "natToString (nat 3) = ''3''"
    by code_simp+
  ultimately show "numToString 1 = ''1''" "numToString 2 = ''2''" "numToString 3 = ''3''"
    by simp_all
qed

section \<open>Status translation\<close>

lemma mapStatus_cases:
  "mapStatus st =
     (if st \<in> {''magnet_error'', ''error'', ''virus'', ''dead''} then Status Error
      else if st \<in> {''magnet_conversion'', ''waiting_files_selection'', ''queued''} then Status Queued
      else if st = ''downloading'' then Status Downloading
      else if st = ''downloaded'' then Status Ready
      else if st \<in> set objectPrototypeKeys then ObjectMember st
      else Status Queued)"
  by (simp add: mapStatus_def getProperty_def statusMap_def)

lemma mapStatus_ready_iff: "mapStatus st = Status Ready \<longleftrightarrow> st = ''downloaded''"
  by (simp add: mapStatus_cases objectPrototypeKeys_def)

lemma mapStatus_error_iff:
  "mapStatus st = Status Error \<longleftrightarrow> st \<in> {''magnet_error'', ''error'', ''virus'', ''dead''}"
  by (simp add: mapStatus_cases objectPrototypeKeys_def)

lemma mapStatus_never_processing: "mapStatus st \<noteq> Status Processing"
  by (simp add: mapStatus_cases)

lemma mapStatus_outside_prototype:
  "st \<notin> set objectPrototypeKeys \<Longrightarrow>
     mapStatus st \<in> {Status Queued, Status Downloading, Status Ready, Status Error}"
  by (simp add: mapStatus_cases)

lemma status_mapTorrentToTransfer [simp]:
  "status (mapTorrentToTransfer t) = mapStatus (torrent_status t)"
  by (simp add: mapTorrentToTransfer_def)

lemma error_detail_mapTorrentToTransfer [simp]:
  "error_detail (mapTorrentToTransfer t) = None"
  by (simp add: mapTorrentToTransfer_def)

section \<open>Authentication\<close>

lemma authenticate_failure_apiKey:
  "authenticate p svc credentials = (Inl e, p') \<Longrightarrow> apiKey p' = None"
  by (auto simp: authenticate_def Let_def split: option.splits if_splits sum.splits)

lemma checkStatus_without_key:
  "apiKey p = None \<Longrightarrow> checkStatus p svc = (Inl NotAuthenticated, p)"
  by (simp add: checkStatus_def truthy_def)

lemma transfers_without_key:
  assumes "apiKey p = None"
  shows "addMagnet p svc m = (Inl NotAuthenticated, p)"
    and "getTransferStatus p svc tid = (Inl NotAuthenticated, p)"
    and "getStreamUrl p svc tid fid = (Inl NotAuthenticated, p)"
  using assms by (simp_all add: addMagnet_def getTransferStatus_def getStreamUrl_def truthy_def)

text \<open>
  Claim C5. When \<open>authenticate\<close> fails, for an absent API key or for a failed account
  lookup, the provider holds no API key afterwards, and the next \<open>checkStatus\<close> fails
  with the not-authenticated error without sending a request; so do \<open>addMagnet\<close>,
  \<open>getTransferStatus\<close> and \<open>getStreamUrl\<close>.
\<close>

theorem failed_authenticate_leaves_no_session:
  "authenticate p svc credentials = (Inl e, p') \<Longrightarrow>
     apiKey p' = None \<and> checkStatus p' svc' = (Inl NotAuthenticated, p')
     \<and> addMagnet p' svc' m = (Inl NotAuthenticated, p')
     \<and> getTransferStatus p' svc' tid = (Inl NotAuthenticated, p')
     \<and> getStreamUrl p' svc' tid fid = (Inl NotAuthenticated, p')"
  using authenticate_failure_apiKey checkStatus_without_key transfers_without_key by metis

theorem failed_authenticate_leaves_no_session_witness:
  "authenticate freshProvider (sampleService (Inr sampleUser) sampleTorrent) noCredentials
     = (Inl ApiKeyRequired, freshProvider)
   \<and> checkStatus freshProvider (sampleService (Inr sampleUser) sampleTorrent)
       = (Inl NotAuthenticated, freshProvider)
   \<and> authenticate signedInProvider (sampleService (Inl (RemoteError ''401'')) sampleTorrent)
        rejectedCredentials
     = (Inl (RemoteError ''401''),
        freshProvider\<lparr> authorization := Some ''Bearer BAD'', requests := [GetUser] \<rparr>)
   \<and> checkStatus (freshProvider\<lparr> authorization := Some ''Bearer BAD'', requests := [GetUser] \<rparr>)
         (sampleService (Inr sampleUser) sampleTorrent)
       = (Inl NotAuthenticated,
          freshProvider\<lparr> authorization := Some ''Bearer BAD'', requests := [GetUser] \<rparr>)"
proof -
  have a: "authenticate freshProvider (sampleService (Inr sampleUser) sampleTorrent) noCredentials
             = (Inl ApiKeyRequired, freshProvider)"
    by (simp add: authenticate_def noCredentials_def freshProvider_def)
  have b: "authenticate signedInProvider (sampleService (Inl (RemoteError ''401'')) sampleTorrent)
             rejectedCredentials
           = (Inl (RemoteError ''401''),
              freshProvider\<lparr> authorization := Some ''Bearer BAD'', requests := [GetUser] \<rparr>)"
    by (simp add: authenticate_def rejectedCredentials_def signedInProvider_def freshProvider_def
        sampleService_def sent_def)
  from failed_authenticate_leaves_no_session [OF a]
  have c: "checkStatus freshProvider (sampleService (Inr sampleUser) sampleTorrent)
             = (Inl NotAuthenticated, freshProvider)" by blast
  from failed_authenticate_leaves_no_session [OF b]
  have d: "checkStatus (freshProvider\<lparr> authorization := Some ''Bearer BAD'', requests := [GetUser] \<rparr>)
             (sampleService (Inr sampleUser) sampleTorrent)
           = (Inl NotAuthenticated,
              freshProvider\<lparr> authorization := Some ''Bearer BAD'', requests := [GetUser] \<rparr>)"
    by blast
  from a b c d show ?thesis by blast
qed

section \<open>Transfers\<close>

lemma getTransferStatus_result:
  "getTransferStatus p svc tid = (Inr tr, p') \<Longrightarrow>
     \<exists>t. getTorrentInfo svc tid = Inr t \<and> tr = mapTorrentToTransfer t"
  by (auto simp: getTransferStatus_def Let_def split: if_splits sum.splits)

lemma addMagnet_result:
  "addMagnet p svc m = (Inr tr, p') \<Longrightarrow> \<exists>t. tr = mapTorrentToTransfer t"
  by (auto simp: addMagnet_def Let_def split: if_splits sum.splits option.splits)

lemma getTransferStatus_signedIn:
  "getTransferStatus signedInProvider (sampleService u t) tid
     = (Inr (mapTorrentToTransfer t), sent signedInProvider (GetTorrentInfo tid))"
  by (simp add: getTransferStatus_def signedInProvider_def freshProvider_def truthy_def
      sampleService_def)

text \<open>
  Claim C4, as the code has it. No transfer that \<open>getTransferStatus\<close> or \<open>addMagnet\<close>
  returns carries an error detail, whatever its status; the status is \<open>error\<close> exactly
  for the remote statuses \<open>magnet_error\<close>, \<open>error\<close>, \<open>virus\<close> and \<open>dead\<close>.
\<close>

theorem transfers_carry_no_error_detail:
  "(getTransferStatus p svc tid = (Inr tr, p') \<longrightarrow> error_detail tr = None)
   \<and> (addMagnet p svc m = (Inr tr, p') \<longrightarrow> error_detail tr = None)
   \<and> error_detail (mapTorrentToTransfer t) = None
   \<and> (status (mapTorrentToTransfer t) = Status Error
        \<longleftrightarrow> torrent_status t \<in> {''magnet_error'', ''error'', ''virus'', ''dead''})"
proof -
  have "getTransferStatus p svc tid = (Inr tr, p') \<longrightarrow> error_detail tr = None"
    using getTransferStatus_result [of p svc tid tr p'] by auto
  moreover have "addMagnet p svc m = (Inr tr, p') \<longrightarrow> error_detail tr = None"
    using addMagnet_result [of p svc m tr p'] by auto
  ultimately show ?thesis by (simp add: mapStatus_error_iff)
qed

theorem transfers_carry_no_error_detail_witness:
  "getTransferStatus signedInProvider (sampleService (Inr sampleUser) deadTorrent) ''T1''
     = (Inr (mapTorrentToTransfer deadTorrent), sent signedInProvider (GetTorrentInfo ''T1''))
   \<and> error_detail (mapTorrentToTransfer deadTorrent) = None
   \<and> addMagnet signedInProvider (sampleService (Inr sampleUser) deadTorrent) ''magnet:?xt=urn:btih:0123456789abcdef0123456789abcdef01234567''
     = (Inr (mapTorrentToTransfer deadTorrent),
        signedInProvider\<lparr> requests :=
          [PostAddMagnet ''magnet:?xt=urn:btih:0123456789abcdef0123456789abcdef01234567'',
           GetTorrentInfo ''T1'', PostSelectFiles ''T1'' ''1,2,3''] \<rparr>)
   \<and> torrent_status deadTorrent \<in> {''magnet_error'', ''error'', ''virus'', ''dead''}
   \<and> status (mapTorrentToTransfer deadTorrent) = Status Error"
proof -
  let ?svc = "sampleService (Inr sampleUser) deadTorrent"
  let ?m = "''magnet:?xt=urn:btih:0123456789abcdef0123456789abcdef01234567''"
  let ?p = "signedInProvider\<lparr> requests := [PostAddMagnet ?m, GetTorrentInfo ''T1'',
               PostSelectFiles ''T1'' ''1,2,3''] \<rparr>"
  have a: "getTransferStatus signedInProvider ?svc ''T1''
             = (Inr (mapTorrentToTransfer deadTorrent), sent signedInProvider (GetTorrentInfo ''T1''))"
    by (rule getTransferStatus_signedIn)
  have b: "addMagnet signedInProvider ?svc ?m = (Inr (mapTorrentToTransfer deadTorrent), ?p)"
    by (simp add: addMagnet_def signedInProvider_def freshProvider_def truthy_def
        sampleService_def sent_def deadTorrent_def sampleTorrent_def sampleFiles_def
        numToString_samples)
  have c: "torrent_status deadTorrent \<in> {''magnet_error'', ''error'', ''virus'', ''dead''}"
    by (simp add: deadTorrent_def)
  from transfers_carry_no_error_detail
    [of signedInProvider ?svc "''T1''" "mapTorrentToTransfer deadTorrent"
        "sent signedInProvider (GetTorrentInfo ''T1'')" ?m deadTorrent] a b c
  show ?thesis by simp
qed

theorem error_status_without_detail_counterexample:
  "status (mapTorrentToTransfer deadTorrent) = Status Error
   \<and> error_detail (mapTorrentToTransfer deadTorrent) = None
   \<and> fst (getTransferStatus signedInProvider (sampleService (Inr sampleUser) deadTorrent) ''T1'')
       = Inr (mapTorrentToTransfer deadTorrent)"
  by (simp add: getTransferStatus_signedIn mapStatus_error_iff deadTorrent_def)

text \<open>
  Claim C10, at a remote status that the translation table does not hold but every
  object inherits: the status of the transfer is then that inherited member, not
  \<open>queued\<close> and none of the status strings.
\<close>

theorem inherited_member_as_status:
  "fst (getTransferStatus signedInProvider (sampleService (Inr sampleUser) oddTorrent) ''T1'')
     = Inr (mapTorrentToTransfer oddTorrent)
   \<and> torrent_status oddTorrent = ''constructor''
   \<and> status (mapTorrentToTransfer oddTorrent) = ObjectMember ''constructor''
   \<and> status (mapTorrentToTransfer oddTorrent)
       \<notin> {Status Queued, Status Downloading, Status Processing, Status Ready, Status Error}"
  by (simp add: getTransferStatus_signedIn mapStatus_cases oddTorrent_def objectPrototypeKeys_def)

section \<open>Stream URLs\<close>

lemma findIndex_None_iff: "findIndex P xs = None \<longleftrightarrow> (\<forall>x\<in>set xs. \<not> P x)"
  by (induction xs) (auto split: option.splits)

lemma linkToUnrestrict_unmatched_fileId:
  assumes "f \<noteq> []"
    and "\<forall>fs. files t = Some fs \<longrightarrow> (\<forall>x\<in>set fs. Num (of_int (file_id x)) \<noteq> parseInt f)"
  shows "linkToUnrestrict (Some f) t = links t ! 0"
proof (cases "files t")
  case None
  then show ?thesis by (simp add: linkToUnrestrict_def)
next
  case (Some fs)
  with assms(2) have "findIndex (\<lambda>x. Num (of_int (file_id x)) = parseInt f) fs = None"
    by (simp add: findIndex_None_iff)
  with Some assms(1) show ?thesis by (simp add: linkToUnrestrict_def linkForFileId_def)
qed

lemma getStreamUrl_not_ready:
  assumes "truthy (apiKey p)" "getTorrentInfo svc tid = Inr t" "torrent_status t \<noteq> ''downloaded''"
  shows "getStreamUrl p svc tid fid
           = (Inl (TorrentNotReady (torrent_status t)), sent p (GetTorrentInfo tid))"
  using assms by (simp add: getStreamUrl_def)

lemma getStreamUrl_no_links:
  assumes "truthy (apiKey p)" "getTorrentInfo svc tid = Inr t" "torrent_status t = ''downloaded''"
    "links t = []"
  shows "getStreamUrl p svc tid fid = (Inl NoLinksAvailable, sent p (GetTorrentInfo tid))"
  using assms by (simp add: getStreamUrl_def)

lemma getStreamUrl_unrestrict:
  assumes "truthy (apiKey p)" "getTorrentInfo svc tid = Inr t" "torrent_status t = ''downloaded''"
    "links t \<noteq> []"
  shows "getStreamUrl p svc tid fid
           = (case postUnrestrictLink svc (linkToUnrestrict fid t) of
                Inl e \<Rightarrow> Inl e | Inr r \<Rightarrow> Inr (download r),
              sent (sent p (GetTorrentInfo tid)) (PostUnrestrictLink (linkToUnrestrict fid t)))"
  using assms by (simp add: getStreamUrl_def Let_def split: sum.splits)

lemma getStreamUrl_signedIn_sample:
  assumes "torrent_status t = ''downloaded''" "links t \<noteq> []"
  shows "getStreamUrl signedInProvider (sampleService u t) tid fid
           = (Inr (''https://download.example/'' @ linkToUnrestrict fid t),
              signedInProvider\<lparr> requests :=
                [GetTorrentInfo tid, PostUnrestrictLink (linkToUnrestrict fid t)] \<rparr>)"
proof -
  have "truthy (apiKey signedInProvider)"
    by (simp add: signedInProvider_def truthy_def)
  moreover have "getTorrentInfo (sampleService u t) tid = Inr t"
    by (simp add: sampleService_def)
  ultimately show ?thesis
    using assms
    by (simp add: getStreamUrl_unrestrict) (simp add: sampleService_def sent_def
        signedInProvider_def freshProvider_def)
qed

text \<open>
  Claim C1, as the code has it. For a signed-in provider and a transfer that the service
  reports: when the status of the transfer is not ready, \<open>getStreamUrl\<close> fails with the
  not-ready error and has sent the status request only; when the status is ready and
  the torrent has no link, it fails with the no-links error, again after the status
  request only; an explicit file id that matches no file, be it that the torrent has no
  file list, is no error, the first link is unrestricted; and a URL is returned only for
  a ready transfer with a link whose unrestrict request succeeds.
\<close>

theorem getStreamUrl_outcomes:
  assumes "truthy (apiKey p)" and "getTorrentInfo svc tid = Inr t"
  shows
    "(status (mapTorrentToTransfer t) \<noteq> Status Ready \<longrightarrow>
        fst (getStreamUrl p svc tid fid) = Inl (TorrentNotReady (torrent_status t))
        \<and> requests (snd (getStreamUrl p svc tid fid)) = requests p @ [GetTorrentInfo tid])
     \<and> (status (mapTorrentToTransfer t) = Status Ready \<and> links t = [] \<longrightarrow>
        fst (getStreamUrl p svc tid fid) = Inl NoLinksAvailable
        \<and> requests (snd (getStreamUrl p svc tid fid)) = requests p @ [GetTorrentInfo tid])
     \<and> (status (mapTorrentToTransfer t) = Status Ready \<and> links t \<noteq> []
          \<and> fid = Some f \<and> f \<noteq> []
          \<and> (\<forall>fs. files t = Some fs \<longrightarrow>
                (\<forall>x\<in>set fs. Num (of_int (file_id x)) \<noteq> parseInt f)) \<longrightarrow>
        fst (getStreamUrl p svc tid fid)
          = (case postUnrestrictLink svc (links t ! 0) of
               Inl e \<Rightarrow> Inl e | Inr r \<Rightarrow> Inr (download r))
        \<and> requests (snd (getStreamUrl p svc tid fid))
            = requests p @ [GetTorrentInfo tid, PostUnrestrictLink (links t ! 0)])
     \<and> (fst (getStreamUrl p svc tid fid) = Inr url \<longrightarrow>
        status (mapTorrentToTransfer t) = Status Ready \<and> links t \<noteq> []
        \<and> (\<exists>r. postUnrestrictLink svc (linkToUnrestrict fid t) = Inr r \<and> url = download r))"
proof (intro conjI impI)
  assume "status (mapTorrentToTransfer t) \<noteq> Status Ready"
  then have nr: "torrent_status t \<noteq> ''downloaded''" by (simp add: mapStatus_ready_iff)
  show "fst (getStreamUrl p svc tid fid) = Inl (TorrentNotReady (torrent_status t))"
    by (simp add: getStreamUrl_not_ready [OF assms nr])
  show "requests (snd (getStreamUrl p svc tid fid)) = requests p @ [GetTorrentInfo tid]"
    by (simp add: getStreamUrl_not_ready [OF assms nr] sent_def)
next
  assume "status (mapTorrentToTransfer t) = Status Ready \<and> links t = []"
  then have r: "torrent_status t = ''downloaded''" and l: "links t = []"
    by (simp_all add: mapStatus_ready_iff)
  show "fst (getStreamUrl p svc tid fid) = Inl NoLinksAvailable"
    by (simp add: getStreamUrl_no_links [OF assms r l])
  show "requests (snd (getStreamUrl p svc tid fid)) = requests p @ [GetTorrentInfo tid]"
    by (simp add: getStreamUrl_no_links [OF assms r l] sent_def)
next
  assume h: "status (mapTorrentToTransfer t) = Status Ready \<and> links t \<noteq> []
          \<and> fid = Some f \<and> f \<noteq> []
          \<and> (\<forall>fs. files t = Some fs \<longrightarrow>
                (\<forall>x\<in>set fs. Num (of_int (file_id x)) \<noteq> parseInt f))"
  then have r: "torrent_status t = ''downloaded''" and l: "links t \<noteq> []"
    by (simp_all add: mapStatus_ready_iff)
  from h have k: "linkToUnrestrict fid t = links t ! 0"
    using linkToUnrestrict_unmatched_fileId [of f t] by simp
  show "fst (getStreamUrl p svc tid fid)
          = (case postUnrestrictLink svc (links t ! 0) of
               Inl e \<Rightarrow> Inl e | Inr r \<Rightarrow> Inr (download r))"
    by (simp add: getStreamUrl_unrestrict [OF assms r l] k)
  show "requests (snd (getStreamUrl p svc tid fid))
            = requests p @ [GetTorrentInfo tid, PostUnrestrictLink (links t ! 0)]"
    by (simp add: getStreamUrl_unrestrict [OF assms r l] k sent_def)
next
  assume u: "fst (getStreamUrl p svc tid fid) = Inr url"
  have r: "torrent_status t = ''downloaded''"
  proof (rule ccontr)
    assume "torrent_status t \<noteq> ''downloaded''"
    from getStreamUrl_not_ready [OF assms this] u show False by simp
  qed
  then show "status (mapTorrentToTransfer t) = Status Ready" by (simp add: mapStatus_ready_iff)
  show l: "links t \<noteq> []"
  proof
    assume "links t = []"
    from getStreamUrl_no_links [OF assms r this] u show False by simp
  qed
  from getStreamUrl_unrestrict [OF assms r l] u
  show "\<exists>r. postUnrestrictLink svc (linkToUnrestrict fid t) = Inr r \<and> url = download r"
    by (cases "postUnrestrictLink svc (linkToUnrestrict fid t)") auto
qed

lemma toDouble_numeral:
  "numeral k \<le> (2::int) ^ 53 \<Longrightarrow> toDouble (numeral k) = Num (numeral k)"
  using toDouble_of_int [of "numeral k"] by simp

lemma parseInt_99: "parseInt ''99'' = Num 99" "parseInt ''1'' = Num 1"
  by (simp_all add: parseInt_def isSpace_def isDigit_def code_def digitsValue_def digitVal_def
      toDouble_numeral toDouble_of_int [of 1, simplified])

text \<open>A file id of more than 53 bits is read as the nearest double, here the even one of
  two neighbours, and matches the file whose id is that double.\<close>

lemma toDouble_above_2_53: "toDouble 9007199254740993 = Num 9007199254740992"
proof -
  have "rounded 9007199254740993 = of_int (if even (4503599627370496::int) then 4503599627370496
          else 4503599627370496 + 1) * 2 powi 1"
    by (rule rounded_tie [where e = 53]) simp_all
  then show ?thesis by (simp add: toDouble_pos)
qed

lemma parseInt_above_2_53: "parseInt ''9007199254740993'' = Num 9007199254740992"
  by (simp add: parseInt_def isSpace_def isDigit_def code_def digitsValue_def digitVal_def
      toDouble_above_2_53)

lemma linkForFileId_rounded:
  "linkForFileId ''9007199254740993''
     [\<lparr> file_id = 1, path = ''a.mkv'', bytes = 1, selected = 1 \<rparr>,
      \<lparr> file_id = 9007199254740992, path = ''b.mkv'', bytes = 1, selected = 1 \<rparr>]
     [''L0'', ''L1''] = ''L1''"
  by (simp add: linkForFileId_def parseInt_above_2_53)

lemma isVideoPath_samples:
  "isVideoPath ''/Show/episode.mp4''" "\<not> isVideoPath ''/Show/release.nfo''"
  "isVideoPath ''/Show/episode.MKV''" "isVideoPath ''/Show/episode.mkv''"
  by (simp_all add: isVideoPath_def videoExtensions_def endsWith_def toLowerCase_def
      lowerChar_def code_def)

lemma linkToUnrestrict_samples:
  "linkToUnrestrict (Some ''99'') sampleTorrent = ''L0''"
  "linkToUnrestrict None sampleTorrent = ''L2''"
  "linkToUnrestrict None noFilesTorrent = ''L0''"
  "linkToUnrestrict None shortLinksTorrent = ''L0''"
     apply (simp add: linkToUnrestrict_def linkForFileId_def sampleTorrent_def sampleFiles_def
      parseInt_99)
    apply (simp add: linkToUnrestrict_def linkForLargestVideo_def sampleTorrent_def
      sampleFiles_def videoFiles_def largestVideo_def isVideoPath_samples upt_rec)
   apply (simp add: linkToUnrestrict_def noFilesTorrent_def sampleTorrent_def)
  apply (simp add: linkToUnrestrict_def linkForLargestVideo_def shortLinksTorrent_def
      twoFiles_def sampleTorrent_def videoFiles_def largestVideo_def isVideoPath_samples upt_rec)
  done

lemma signedIn_truthy: "truthy (apiKey signedInProvider)"
  by (simp add: signedInProvider_def truthy_def)

lemma sampleService_info: "getTorrentInfo (sampleService u t) tid = Inr t"
  by (simp add: sampleService_def)

lemma signedIn_requests: "requests signedInProvider = []"
  by (simp add: signedInProvider_def freshProvider_def)

theorem getStreamUrl_outcomes_witness:
  "(status (mapTorrentToTransfer downloadingTorrent) \<noteq> Status Ready
    \<and> fst (getStreamUrl signedInProvider (sampleService (Inr sampleUser) downloadingTorrent)
             ''T1'' None) = Inl (TorrentNotReady ''downloading'')
    \<and> requests (snd (getStreamUrl signedInProvider
             (sampleService (Inr sampleUser) downloadingTorrent) ''T1'' None))
        = [GetTorrentInfo ''T1''])
   \<and> (status (mapTorrentToTransfer noLinksTorrent) = Status Ready \<and> links noLinksTorrent = []
    \<and> fst (getStreamUrl signedInProvider (sampleService (Inr sampleUser) noLinksTorrent)
             ''T1'' None) = Inl NoLinksAvailable
    \<and> requests (snd (getStreamUrl signedInProvider
             (sampleService (Inr sampleUser) noLinksTorrent) ''T1'' None))
        = [GetTorrentInfo ''T1''])
   \<and> (files sampleTorrent = Some sampleFiles
    \<and> findIndex (\<lambda>x. Num (of_int (file_id x)) = parseInt ''99'') sampleFiles = None
    \<and> fst (getStreamUrl signedInProvider (sampleService (Inr sampleUser) sampleTorrent)
             ''T1'' (Some ''99'')) = Inr ''https://download.example/L0''
    \<and> requests (snd (getStreamUrl signedInProvider
             (sampleService (Inr sampleUser) sampleTorrent) ''T1'' (Some ''99'')))
        = [GetTorrentInfo ''T1'', PostUnrestrictLink ''L0''])
   \<and> (files noFilesTorrent = None
    \<and> fst (getStreamUrl signedInProvider (sampleService (Inr sampleUser) noFilesTorrent)
             ''T1'' (Some ''1'')) = Inr ''https://download.example/L0'')
   \<and> (fst (getStreamUrl signedInProvider (sampleService (Inr sampleUser) sampleTorrent)
             ''T1'' None) = Inr ''https://download.example/L2''
    \<and> status (mapTorrentToTransfer sampleTorrent) = Status Ready
    \<and> links sampleTorrent \<noteq> [])"
proof -
  let ?svc = "\<lambda>t. sampleService (Inr sampleUser) t"
  let ?L0 = "''https://download.example/L0''"
  let ?L2 = "''https://download.example/L2''"
  have a: "status (mapTorrentToTransfer downloadingTorrent) \<noteq> Status Ready"
    by (simp add: mapStatus_ready_iff downloadingTorrent_def)
  have b: "status (mapTorrentToTransfer noLinksTorrent) = Status Ready \<and> links noLinksTorrent = []"
    by (simp add: mapStatus_ready_iff noLinksTorrent_def sampleTorrent_def)
  have c1: "status (mapTorrentToTransfer sampleTorrent) = Status Ready"
    by (simp add: mapStatus_ready_iff sampleTorrent_def)
  have c2: "links sampleTorrent \<noteq> []" by (simp add: sampleTorrent_def)
  have c3: "files sampleTorrent = Some sampleFiles" by (simp add: sampleTorrent_def)
  have c4: "\<forall>x\<in>set sampleFiles. Num (of_int (file_id x)) \<noteq> parseInt ''99''"
    by (simp add: sampleFiles_def parseInt_99)
  from c3 c4 have c6: "\<forall>fs. files sampleTorrent = Some fs \<longrightarrow>
      (\<forall>x\<in>set fs. Num (of_int (file_id x)) \<noteq> parseInt ''99'')" by simp
  have e1: "files noFilesTorrent = None" by (simp add: noFilesTorrent_def)
  then have e2: "\<forall>fs. files noFilesTorrent = Some fs \<longrightarrow>
      (\<forall>x\<in>set fs. Num (of_int (file_id x)) \<noteq> parseInt ''1'')" by simp
  have e3: "status (mapTorrentToTransfer noFilesTorrent) = Status Ready"
    by (simp add: mapStatus_ready_iff noFilesTorrent_def sampleTorrent_def)
  have e4: "links noFilesTorrent \<noteq> []" by (simp add: noFilesTorrent_def sampleTorrent_def)
  have e5: "links noFilesTorrent ! 0 = ''L0''" by (simp add: noFilesTorrent_def sampleTorrent_def)
  have e6: "(case postUnrestrictLink (?svc noFilesTorrent) ''L0'' of
              Inl e \<Rightarrow> Inl e | Inr r \<Rightarrow> Inr (download r)) = Inr ?L0"
    by (simp add: sampleService_def)
  have d: "fst (getStreamUrl signedInProvider (?svc sampleTorrent) ''T1'' None) = Inr ?L2"
  proof -
    have "torrent_status sampleTorrent = ''downloaded''" by (simp add: sampleTorrent_def)
    from getStreamUrl_signedIn_sample [OF this c2] show ?thesis
      by (simp add: linkToUnrestrict_samples)
  qed
  have u: "(case postUnrestrictLink (?svc sampleTorrent) ''L0'' of
              Inl e \<Rightarrow> Inl e | Inr r \<Rightarrow> Inr (download r)) = Inr ?L0"
    by (simp add: sampleService_def)
  have l0: "links sampleTorrent ! 0 = ''L0''" by (simp add: sampleTorrent_def)
  have s1: "torrent_status downloadingTorrent = ''downloading''"
    by (simp add: downloadingTorrent_def)
  note outcomes = getStreamUrl_outcomes [OF signedIn_truthy sampleService_info]
  have 1: "fst (getStreamUrl signedInProvider (?svc downloadingTorrent) ''T1'' None)
             = Inl (TorrentNotReady (torrent_status downloadingTorrent))
           \<and> requests (snd (getStreamUrl signedInProvider (?svc downloadingTorrent) ''T1'' None))
             = requests signedInProvider @ [GetTorrentInfo ''T1'']"
    using a outcomes [of downloadingTorrent "Inr sampleUser" "''T1''" None "''99''" ?L2]
    by blast
  have 2: "fst (getStreamUrl signedInProvider (?svc noLinksTorrent) ''T1'' None)
             = Inl NoLinksAvailable
           \<and> requests (snd (getStreamUrl signedInProvider (?svc noLinksTorrent) ''T1'' None))
             = requests signedInProvider @ [GetTorrentInfo ''T1'']"
    using b outcomes [of noLinksTorrent "Inr sampleUser" "''T1''" None "''99''" ?L2]
    by blast
  have 3: "fst (getStreamUrl signedInProvider (?svc sampleTorrent) ''T1'' (Some ''99''))
             = (case postUnrestrictLink (?svc sampleTorrent) (links sampleTorrent ! 0) of
                  Inl e \<Rightarrow> Inl e | Inr r \<Rightarrow> Inr (download r))
           \<and> requests (snd (getStreamUrl signedInProvider (?svc sampleTorrent) ''T1'' (Some ''99'')))
             = requests signedInProvider
                 @ [GetTorrentInfo ''T1'', PostUnrestrictLink (links sampleTorrent ! 0)]"
    using c1 c2 c6
      outcomes [of sampleTorrent "Inr sampleUser" "''T1''" "Some ''99''" "''99''" ?L2]
    by blast
  have 5: "fst (getStreamUrl signedInProvider (?svc noFilesTorrent) ''T1'' (Some ''1''))
             = (case postUnrestrictLink (?svc noFilesTorrent) (links noFilesTorrent ! 0) of
                  Inl e \<Rightarrow> Inl e | Inr r \<Rightarrow> Inr (download r))"
    using e2 e3 e4
      outcomes [of noFilesTorrent "Inr sampleUser" "''T1''" "Some ''1''" "''1''" ?L2]
    by blast
  from 5 have r5: "fst (getStreamUrl signedInProvider (?svc noFilesTorrent) ''T1'' (Some ''1''))
             = Inr ?L0"
    by (simp only: e5 e6)
  have 4: "status (mapTorrentToTransfer sampleTorrent) = Status Ready \<and> links sampleTorrent \<noteq> []"
    using d outcomes [of sampleTorrent "Inr sampleUser" "''T1''" None "''99''" ?L2]
    by blast
  from 1 have r1: "fst (getStreamUrl signedInProvider (?svc downloadingTorrent) ''T1'' None)
             = Inl (TorrentNotReady ''downloading'')
           \<and> requests (snd (getStreamUrl signedInProvider (?svc downloadingTorrent) ''T1'' None))
             = [GetTorrentInfo ''T1'']"
    by (simp only: s1 signedIn_requests append_Nil)
  from 2 have r2: "fst (getStreamUrl signedInProvider (?svc noLinksTorrent) ''T1'' None)
             = Inl NoLinksAvailable
           \<and> requests (snd (getStreamUrl signedInProvider (?svc noLinksTorrent) ''T1'' None))
             = [GetTorrentInfo ''T1'']"
    by (simp only: signedIn_requests append_Nil)
  from 3 have r3: "fst (getStreamUrl signedInProvider (?svc sampleTorrent) ''T1'' (Some ''99''))
             = Inr ?L0
           \<and> requests (snd (getStreamUrl signedInProvider (?svc sampleTorrent) ''T1'' (Some ''99'')))
             = [GetTorrentInfo ''T1'', PostUnrestrictLink ''L0'']"
    by (simp only: l0 u signedIn_requests append_Nil)
  from c4 have c5: "findIndex (\<lambda>x. Num (of_int (file_id x)) = parseInt ''99'') sampleFiles = None"
    by (simp only: findIndex_None_iff simp_thms)
  from a b c3 c5 d r1 r2 r3 4 e1 r5 show ?thesis by blast
qed

theorem getStreamUrl_unmatched_fileId_counterexample:
  "''99'' \<notin> set (map df_id (transfer_files (mapTorrentToTransfer sampleTorrent)))
   \<and> fst (getStreamUrl signedInProvider (sampleService (Inr sampleUser) sampleTorrent)
            ''T1'' (Some ''99'')) = Inr ''https://download.example/L0''
   \<and> transfer_files (mapTorrentToTransfer noFilesTorrent) = []
   \<and> fst (getStreamUrl signedInProvider (sampleService (Inr sampleUser) noFilesTorrent)
            ''T1'' None) = Inr ''https://download.example/L0''"
proof -
  have "map df_id (transfer_files (mapTorrentToTransfer sampleTorrent)) = [''1'', ''2'', ''3'']"
    by (simp add: mapTorrentToTransfer_def sampleTorrent_def sampleFiles_def numToString_samples)
  moreover have "transfer_files (mapTorrentToTransfer noFilesTorrent) = []"
    by (simp add: mapTorrentToTransfer_def noFilesTorrent_def)
  moreover have "torrent_status sampleTorrent = ''downloaded''" "links sampleTorrent \<noteq> []"
    "torrent_status noFilesTorrent = ''downloaded''" "links noFilesTorrent \<noteq> []"
    by (simp_all add: sampleTorrent_def noFilesTorrent_def)
  ultimately show ?thesis
    by (simp add: getStreamUrl_signedIn_sample linkToUnrestrict_samples)
qed

section \<open>Ranking by seeders\<close>

lemma Fin_le [simp]: "Fin a \<le> Fin b \<longleftrightarrow> a \<le> b"
  by (simp add: less_eq_xint_def)

lemma Fin_less [simp]: "Fin a < Fin b \<longleftrightarrow> a < b"
  by (auto simp: less_xint_def)

lemma positive_minus: "positive (minus x y) \<longleftrightarrow> y < x"
proof (cases x; cases y)
  fix a b assume "x = Fin a" "y = Fin b"
  then show ?thesis using positive_toDouble_of_int [of "a - b"] by simp
qed (simp_all add: positive_def less_xint_def less_eq_xint_def)

lemma bySeeders_positive: "positive (bySeeders a b) \<longleftrightarrow> seeders a < seeders b"
  by (simp only: bySeeders_def positive_minus)

lemma mirror_le: "mirror x \<le> mirror y \<longleftrightarrow> y \<le> x"
  by (cases x; cases y) (simp_all add: mirror_def less_eq_xint_def)

lemma mirror_eq: "mirror x = mirror y \<longleftrightarrow> x = y"
  by (cases x; cases y) (simp_all add: mirror_def)

lemma insertBy_bySeeders: "insertBy bySeeders x ys = insort_key (\<lambda>r. mirror (seeders r)) x ys"
  by (induction ys) (auto simp: bySeeders_positive mirror_le)

lemma sortWith_bySeeders: "sortWith bySeeders xs = sort_key (\<lambda>r. mirror (seeders r)) xs"
proof -
  have "insertBy bySeeders = insort_key (\<lambda>r. mirror (seeders r))"
    by (intro ext) (rule insertBy_bySeeders)
  then show ?thesis by (simp add: sortWith_def sort_key_def)
qed


lemma sortWith_bySeeders_descending: "seedersDescending (sortWith bySeeders xs)"
proof -
  let ?rs = "sortWith bySeeders xs"
  have s: "sorted (map (\<lambda>r. mirror (seeders r)) ?rs)"
    by (simp add: sortWith_bySeeders)
  show ?thesis
    unfolding seedersDescending_def
  proof (intro allI impI)
    fix i j assume h: "i < j \<and> j < length ?rs"
    then have "map (\<lambda>r. mirror (seeders r)) ?rs ! i \<le> map (\<lambda>r. mirror (seeders r)) ?rs ! j"
      using s by (intro sorted_nth_mono) auto
    with h show "seeders (?rs ! j) \<le> seeders (?rs ! i)" by (simp add: mirror_le)
  qed
qed

lemma sortWith_bySeeders_stable:
  "filter (\<lambda>r. seeders r = k) (sortWith bySeeders xs) = filter (\<lambda>r. seeders r = k) xs"
proof -
  have "filter (\<lambda>r. mirror (seeders r) = mirror k) (sort_key (\<lambda>r. mirror (seeders r)) xs)
          = filter (\<lambda>r. mirror (seeders r) = mirror k) xs"
    by (rule sort_key_stable)
  then show ?thesis by (simp add: sortWith_bySeeders mirror_eq)
qed

section \<open>The aggregated search\<close>

lemma callAll_settled:
  "(case callAll (map g xs) of
      Inl e \<Rightarrow> Inl e
    | Inr results \<Rightarrow> Inr (F (concat (map settledValue (filter fulfilled results)))))
   = (case List.map_filter (\<lambda>s. case g s of Throws e \<Rightarrow> Some e | Returns p \<Rightarrow> None) xs of
        [] \<Rightarrow> Inr (F (concat (List.map_filter
                (\<lambda>s. case g s of Returns (Inr v) \<Rightarrow> Some v | _ \<Rightarrow> None) xs)))
      | e # es \<Rightarrow> Inl e)"
proof (induction xs arbitrary: F)
  case Nil
  then show ?case by (simp add: map_filter_simps)
next
  case (Cons x xs)
  show ?case
  proof (cases "g x")
    case (Throws e)
    then show ?thesis by (simp add: map_filter_simps)
  next
    case (Returns p)
    show ?thesis
    proof (cases p)
      case (Inl e)
      with Returns Cons.IH [of F] show ?thesis
        by (simp add: map_filter_simps fulfilled_def split: sum.splits list.splits)
    next
      case (Inr v)
      with Returns Cons.IH [of "\<lambda>ys. F (v @ ys)"] show ?thesis
        by (simp add: map_filter_simps fulfilled_def settledValue_def
            split: sum.splits list.splits)
    qed
  qed
qed

lemma torrentSearch_valid:
  assumes "query d \<noteq> []"
  shows "torrentSearch allScrapers d =
           (if filter scraper_enabled allScrapers = [] then Inl NoScrapersAvailable
            else case firstThrown allScrapers (query d) (searchKind d) of
                   Some e \<Rightarrow> Inl e
                 | None \<Rightarrow> Inr (sortWith bySeeders
                     (spec_successes allScrapers (query d) (searchKind d))))"
proof -
  from assms have "length (query d) \<ge> 1" by (cases "query d") simp_all
  then have v: "validateMediaSearch d = Inr d" by (simp add: validateMediaSearch_def)
  show ?thesis
    unfolding torrentSearch_def v Let_def sum.case
      callAll_settled [where F = "sortWith bySeeders"]
    by (simp add: firstThrown_def spec_successes_def searchKind_def split: list.splits)
qed

lemma torrentSearch_Inr:
  assumes "torrentSearch allScrapers d = Inr rs"
  shows "rs = sortWith bySeeders (spec_successes allScrapers (query d) (searchKind d))"
proof -
  from assms have "query d \<noteq> []"
    by (auto simp: torrentSearch_def validateMediaSearch_def split: if_splits)
  from torrentSearch_valid [OF this, of allScrapers] assms show ?thesis
    by (simp split: if_splits option.splits)
qed

lemma search_Inr:
  "search httpGet q kind = Inr rs \<Longrightarrow> \<exists>rows. rs = parseSearchResults rows"
  by (auto simp: search_def Let_def split: sum.splits)

text \<open>The scrapers of the repository are declared \<open>async\<close>: none of them throws before
  it has returned a promise.\<close>

lemma limeTorrents_never_throws:
  "firstThrown (map (\<lambda>(on, httpGet). limeTorrents on httpGet) cfgs) q kind = None"
proof -
  have "List.map_filter
          (\<lambda>s. case scraper_search s q kind of Throws e \<Rightarrow> Some e | Returns p \<Rightarrow> None)
          (filter scraper_enabled (map (\<lambda>(on, httpGet). limeTorrents on httpGet) cfgs)) = []"
    by (induction cfgs) (auto simp: map_filter_simps limeTorrents_def)
  then show ?thesis by (simp add: firstThrown_def)
qed


text \<open>
  Claim C6. The list that a search of the scraper returns is in descending order of
  seeders, and so is the list of the aggregated search; in the aggregated list the
  candidates with the same number of seeders keep the order of the concatenation, in
  which the candidates of a scraper enumerated earlier come first.
\<close>

theorem search_results_descend_by_seeders:
  "seedersDescending (parseSearchResults rows)
   \<and> (search httpGet q kind = Inr rs \<longrightarrow> seedersDescending rs)
   \<and> (torrentSearch allScrapers d = Inr rs' \<longrightarrow>
        seedersDescending rs'
        \<and> (\<forall>k. filter (\<lambda>r. seeders r = k) rs'
                 = filter (\<lambda>r. seeders r = k)
                     (spec_successes allScrapers (query d) (searchKind d))))"
proof (intro conjI impI)
  show "seedersDescending (parseSearchResults rows)"
    by (simp add: parseSearchResults_def sortWith_bySeeders_descending)
next
  assume "search httpGet q kind = Inr rs"
  then obtain rows' where "rs = parseSearchResults rows'" using search_Inr by blast
  then show "seedersDescending rs"
    by (simp add: parseSearchResults_def sortWith_bySeeders_descending)
next
  assume "torrentSearch allScrapers d = Inr rs'"
  from torrentSearch_Inr [OF this] show "seedersDescending rs'"
    by (simp add: sortWith_bySeeders_descending)
next
  assume "torrentSearch allScrapers d = Inr rs'"
  from torrentSearch_Inr [OF this]
  show "\<forall>k. filter (\<lambda>r. seeders r = k) rs'
                 = filter (\<lambda>r. seeders r = k)
                     (spec_successes allScrapers (query d) (searchKind d))"
    by (simp add: sortWith_bySeeders_stable)
qed

lemma sampleSearch_valid: "query sampleSearch \<noteq> []"
  by (simp add: sampleSearch_def)

lemma spec_successes_three:
  "spec_successes threeScrapers (query sampleSearch) (searchKind sampleSearch)
     = [sampleResult ''a1'' 5, sampleResult ''a2'' 50, sampleResult ''c1'' 50,
        sampleResult ''c2'' 7]"
  by (simp add: threeScrapers_def sampleScraper_def spec_successes_def map_filter_simps)


lemma firstThrown_samples:
  "firstThrown threeScrapers (query sampleSearch) (searchKind sampleSearch) = None"
  "firstThrown throwingScrapers (query sampleSearch) (searchKind sampleSearch)
     = Some (RemoteError ''timeout'')"
  by (simp_all add: firstThrown_def threeScrapers_def throwingScrapers_def sampleScraper_def
      map_filter_simps)

lemma sorted_samples:
  "sortWith bySeeders [sampleResult ''a1'' 5, sampleResult ''a2'' 50, sampleResult ''c1'' 50,
        sampleResult ''c2'' 7]
     = [sampleResult ''a2'' 50, sampleResult ''c1'' 50, sampleResult ''c2'' 7,
        sampleResult ''a1'' 5]"
  by (simp add: sortWith_def bySeeders_positive sampleResult_def)

lemma enabled_samples:
  "filter scraper_enabled disabledScrapers = []"
  "filter scraper_enabled threeScrapers \<noteq> []"
  "filter scraper_enabled throwingScrapers \<noteq> []"
  by (simp_all add: disabledScrapers_def threeScrapers_def throwingScrapers_def sampleScraper_def)

lemma torrentSearch_three:
  "torrentSearch threeScrapers sampleSearch
     = Inr [sampleResult ''a2'' 50, sampleResult ''c1'' 50, sampleResult ''c2'' 7,
            sampleResult ''a1'' 5]"
  by (simp add: torrentSearch_valid [OF sampleSearch_valid] enabled_samples firstThrown_samples
      spec_successes_three sorted_samples)




subsection \<open>A page of the index\<close>

lemma sample_hash:
  "extractInfoHashFromLink
     (Some ''http://itorrents.org/torrent/0123456789ABCDEF0123456789ABCDEF01234567/x'')
   = Some ''0123456789abcdef0123456789abcdef01234567''"
  by code_simp

lemma trim_samples:
  "trim ''One'' = ''One''" "trim ''Two'' = ''Two''" "trim ''5'' = ''5''" "trim ''15'' = ''15''"
  by code_simp+

lemma parseInt_samples: "parseInt ''5'' = Num 5" "parseInt ''15'' = Num 15"
  by (simp_all add: parseInt_def isSpace_def isDigit_def code_def digitsValue_def digitVal_def
      toDouble_numeral)

lemma parseRow_seeders:
  assumes "trim (titleText r) \<noteq> []" and "extractInfoHashFromLink (torrentLink r) = Some h"
  shows "\<exists>t. parseRow r = Some t \<and> seeders t = orZero (parseInt (trim (seedCell r)))"
  using assms by (simp add: parseRow_def Let_def)

lemma parseSearchResults_sample:
  "map seeders (parseSearchResults [sampleRow ''One'' ''5'', sampleRow ''Two'' ''15''])
     = [Fin 15, Fin 5]"
proof -
  have "\<exists>t. parseRow (sampleRow ''One'' ''5'') = Some t
          \<and> seeders t = orZero (parseInt (trim (seedCell (sampleRow ''One'' ''5''))))"
    by (rule parseRow_seeders) (simp_all add: sampleRow_def trim_samples sample_hash)
  then obtain t1 where t1: "parseRow (sampleRow ''One'' ''5'') = Some t1" "seeders t1 = Fin 5"
    by (auto simp: sampleRow_def trim_samples parseInt_samples orZero_def)
  have "\<exists>t. parseRow (sampleRow ''Two'' ''15'') = Some t
          \<and> seeders t = orZero (parseInt (trim (seedCell (sampleRow ''Two'' ''15''))))"
    by (rule parseRow_seeders) (simp_all add: sampleRow_def trim_samples sample_hash)
  then obtain t2 where t2: "parseRow (sampleRow ''Two'' ''15'') = Some t2" "seeders t2 = Fin 15"
    by (auto simp: sampleRow_def trim_samples parseInt_samples orZero_def)
  have "parseSearchResults [sampleRow ''One'' ''5'', sampleRow ''Two'' ''15''] = [t2, t1]"
    by (simp add: parseSearchResults_def map_filter_simps t1 t2 sortWith_def bySeeders_positive)
  with t1(2) t2(2) show ?thesis by simp
qed

theorem search_results_descend_by_seeders_witness:
  "seedersDescending (parseSearchResults [sampleRow ''One'' ''5'', sampleRow ''Two'' ''15''])
   \<and> search samplePage ''foo'' Movie
       = Inr (parseSearchResults [sampleRow ''One'' ''5'', sampleRow ''Two'' ''15''])
   \<and> map seeders (parseSearchResults [sampleRow ''One'' ''5'', sampleRow ''Two'' ''15''])
       = [Fin 15, Fin 5]
   \<and> torrentSearch threeScrapers sampleSearch
       = Inr [sampleResult ''a2'' 50, sampleResult ''c1'' 50, sampleResult ''c2'' 7,
              sampleResult ''a1'' 5]
   \<and> seedersDescending [sampleResult ''a2'' 50, sampleResult ''c1'' 50, sampleResult ''c2'' 7,
            sampleResult ''a1'' 5]
   \<and> filter (\<lambda>r. seeders r = Fin 50)
        [sampleResult ''a2'' 50, sampleResult ''c1'' 50, sampleResult ''c2'' 7,
         sampleResult ''a1'' 5]
       = filter (\<lambda>r. seeders r = Fin 50)
           (spec_successes threeScrapers (query sampleSearch) (searchKind sampleSearch))
   \<and> filter (\<lambda>r. seeders r = Fin 50)
           (spec_successes threeScrapers (query sampleSearch) (searchKind sampleSearch))
       = [sampleResult ''a2'' 50, sampleResult ''c1'' 50]"
proof -
  let ?rows = "[sampleRow ''One'' ''5'', sampleRow ''Two'' ''15'']"
  let ?rs = "[sampleResult ''a2'' 50, sampleResult ''c1'' 50, sampleResult ''c2'' 7,
              sampleResult ''a1'' 5]"
  note t = search_results_descend_by_seeders
             [of ?rows samplePage "''foo''" Movie "parseSearchResults ?rows"
                 threeScrapers sampleSearch ?rs]
  have 0: "search samplePage ''foo'' Movie = Inr (parseSearchResults ?rows)"
    by (simp add: search_def samplePage_def)
  from t 0 have 1: "seedersDescending (parseSearchResults ?rows)" by blast
  from t torrentSearch_three have 2: "seedersDescending ?rs" by blast
  from t torrentSearch_three
  have 3: "filter (\<lambda>r. seeders r = Fin 50) ?rs
             = filter (\<lambda>r. seeders r = Fin 50)
                 (spec_successes threeScrapers (query sampleSearch) (searchKind sampleSearch))"
    by blast
  have 4: "filter (\<lambda>r. seeders r = Fin 50)
             (spec_successes threeScrapers (query sampleSearch) (searchKind sampleSearch))
           = [sampleResult ''a2'' 50, sampleResult ''c1'' 50]"
    by (simp add: spec_successes_three sampleResult_def)
  from 0 1 2 3 4 parseSearchResults_sample torrentSearch_three show ?thesis by blast
qed

section \<open>The largest video\<close>

lemma startsWith_iff: "startsWith s p \<longleftrightarrow> (\<exists>r. s = p @ r)"
  by (induction s p rule: startsWith.induct) auto

lemma endsWith_iff: "endsWith s p \<longleftrightarrow> (\<exists>r. s = r @ p)"
proof -
  have "(\<exists>r. rev s = rev p @ r) \<longleftrightarrow> (\<exists>r. s = r @ p)"
  proof
    assume "\<exists>r. rev s = rev p @ r"
    then obtain r where "rev s = rev p @ r" ..
    then have "s = rev r @ p" by (metis rev_append rev_rev_ident)
    then show "\<exists>r. s = r @ p" ..
  next
    assume "\<exists>r. s = r @ p"
    then obtain r where "s = r @ p" ..
    then have "rev s = rev p @ rev r" by simp
    then show "\<exists>r. rev s = rev p @ r" ..
  qed
  then show ?thesis by (simp add: endsWith_def startsWith_iff)
qed

lemma isVideoPath_iff:
  "isVideoPath q \<longleftrightarrow>
     (\<exists>e\<in>set [''mp4'', ''mkv'', ''avi'', ''mov'', ''wmv'', ''flv'', ''webm''].
        \<exists>stem. toLowerCase q = stem @ ''.'' @ e)"
  by (simp add: isVideoPath_def videoExtensions_def endsWith_iff)

lemma largestVideo_Cons:
  "largestVideo v (a # vs) = largestVideo (if bytes (snd a) > bytes (snd v) then a else v) vs"
  by (simp add: largestVideo_def)

lemma largestVideo_ge_first: "bytes (snd v) \<le> bytes (snd (largestVideo v vs))"
proof (induction vs arbitrary: v)
  case Nil
  show ?case by (simp add: largestVideo_def)
next
  case (Cons a vs)
  show ?case
  proof (cases "bytes (snd a) > bytes (snd v)")
    case True
    with Cons [of a] show ?thesis by (simp add: largestVideo_Cons)
  next
    case False
    with Cons [of v] show ?thesis by (simp add: largestVideo_Cons)
  qed
qed

lemma largestVideo_split:
  "\<exists>pre post. v # vs = pre @ largestVideo v vs # post
     \<and> (\<forall>x\<in>set pre. bytes (snd x) < bytes (snd (largestVideo v vs)))
     \<and> (\<forall>x\<in>set post. bytes (snd x) \<le> bytes (snd (largestVideo v vs)))"
proof (induction vs arbitrary: v)
  case Nil
  have "[v] = [] @ largestVideo v [] # []" by (simp add: largestVideo_def)
  then show ?case by fastforce
next
  case (Cons a vs)
  show ?case
  proof (cases "bytes (snd a) > bytes (snd v)")
    case True
    define r where "r = largestVideo a vs"
    from True have rr: "largestVideo v (a # vs) = r" by (simp add: largestVideo_Cons r_def)
    from Cons [of a] obtain pre post where
      s: "a # vs = pre @ r # post"
      and lt: "\<forall>x\<in>set pre. bytes (snd x) < bytes (snd r)"
      and le: "\<forall>x\<in>set post. bytes (snd x) \<le> bytes (snd r)" unfolding r_def by blast
    from True largestVideo_ge_first [of a vs] have "bytes (snd v) < bytes (snd r)"
      by (simp add: r_def)
    with s lt le have
      "v # a # vs = (v # pre) @ r # post
       \<and> (\<forall>x\<in>set (v # pre). bytes (snd x) < bytes (snd r))
       \<and> (\<forall>x\<in>set post. bytes (snd x) \<le> bytes (snd r))" by simp
    then show ?thesis unfolding rr by blast
  next
    case False
    define r where "r = largestVideo v vs"
    from False have rr: "largestVideo v (a # vs) = r" by (simp add: largestVideo_Cons r_def)
    from Cons [of v] obtain pre post where
      s: "v # vs = pre @ r # post"
      and lt: "\<forall>x\<in>set pre. bytes (snd x) < bytes (snd r)"
      and le: "\<forall>x\<in>set post. bytes (snd x) \<le> bytes (snd r)" unfolding r_def by blast
    show ?thesis
    proof (cases pre)
      case Nil
      with s have "v = r" "vs = post" by simp_all
      with False le have
        "v # a # vs = [] @ r # (a # post)
         \<and> (\<forall>x\<in>set []. bytes (snd x) < bytes (snd r))
         \<and> (\<forall>x\<in>set (a # post). bytes (snd x) \<le> bytes (snd r))" by simp
      then show ?thesis unfolding rr by blast
    next
      case (Cons b pre')
      with s have b: "b = v" and vs: "vs = pre' @ r # post" by simp_all
      from lt Cons b have "bytes (snd v) < bytes (snd r)" by simp
      with False have "bytes (snd a) < bytes (snd r)" by simp
      with lt le Cons b vs have
        "v # a # vs = (v # a # pre') @ r # post
         \<and> (\<forall>x\<in>set (v # a # pre'). bytes (snd x) < bytes (snd r))
         \<and> (\<forall>x\<in>set post. bytes (snd x) \<le> bytes (snd r))" by simp
      then show ?thesis unfolding rr by blast
    qed
  qed
qed

lemma videoFiles_member:
  "(i, f) \<in> set (videoFiles fs) \<longleftrightarrow> i < length fs \<and> f = fs ! i \<and> isVideoPath (path f)"
proof
  assume "(i, f) \<in> set (videoFiles fs)"
  then show "i < length fs \<and> f = fs ! i \<and> isVideoPath (path f)"
    by (auto simp: videoFiles_def in_set_zip)
next
  assume h: "i < length fs \<and> f = fs ! i \<and> isVideoPath (path f)"
  then have "[0..<length fs] ! i = fst (i, f) \<and> fs ! i = snd (i, f)
             \<and> i < length [0..<length fs] \<and> i < length fs" by simp
  then have "(i, f) \<in> set (zip [0..<length fs] fs)"
    unfolding in_set_zip by blast
  with h show "(i, f) \<in> set (videoFiles fs)" by (auto simp: videoFiles_def)
qed

lemma videoFiles_ascending: "sorted_wrt (\<lambda>a b. fst a < fst b) (videoFiles fs)"
proof -
  have "sorted_wrt (<) (map fst (zip [0..<length fs] fs))" by simp
  then have "sorted_wrt (\<lambda>a b. fst a < fst b) (zip [0..<length fs] fs)"
    by (simp only: sorted_wrt_map)
  then show ?thesis unfolding videoFiles_def by (rule sorted_wrt_filter)
qed

lemma linkForLargestVideo_none:
  assumes "\<forall>f\<in>set fs. \<not> isVideoPath (path f)"
  shows "linkForLargestVideo fs ls = ls ! 0"
proof -
  have "videoFiles fs = []"
  proof (cases "videoFiles fs")
    case Nil
    then show ?thesis .
  next
    case (Cons x xs)
    then have "(fst x, snd x) \<in> set (videoFiles fs)" by simp
    from iffD1 [OF videoFiles_member this]
    have "fs ! fst x \<in> set fs \<and> isVideoPath (path (fs ! fst x))" by (metis nth_mem)
    with assms show ?thesis by blast
  qed
  then show ?thesis by (simp add: linkForLargestVideo_def)
qed

lemma linkForLargestVideo_some:
  assumes more: "length fs > 1" and ex: "\<exists>f\<in>set fs. isVideoPath (path f)"
  shows "\<exists>i<length fs. isVideoPath (path (fs ! i))
           \<and> (\<forall>j<length fs. isVideoPath (path (fs ! j)) \<longrightarrow> bytes (fs ! j) \<le> bytes (fs ! i))
           \<and> (\<forall>j<i. isVideoPath (path (fs ! j)) \<longrightarrow> bytes (fs ! j) < bytes (fs ! i))
           \<and> linkForLargestVideo fs ls = (if i < length ls then ls ! i else ls ! 0)"
proof -
  from ex obtain k where k: "k < length fs" "isVideoPath (path (fs ! k))"
    by (auto simp: in_set_conv_nth)
  then have "(k, fs ! k) \<in> set (videoFiles fs)" by (simp add: videoFiles_member)
  then obtain v vs where vf: "videoFiles fs = v # vs" by (cases "videoFiles fs") auto
  define r where "r = largestVideo v vs"
  from largestVideo_split [of v vs] obtain pre post where
    s: "v # vs = pre @ r # post"
    and lt: "\<forall>x\<in>set pre. bytes (snd x) < bytes (snd r)"
    and le: "\<forall>x\<in>set post. bytes (snd x) \<le> bytes (snd r)" unfolding r_def by blast
  define i where "i = fst r"
  from s vf have "(fst r, snd r) \<in> set (videoFiles fs)" by simp
  from iffD1 [OF videoFiles_member this]
  have ri: "i < length fs" "snd r = fs ! i" "isVideoPath (path (fs ! i))"
    unfolding i_def by metis+
  from videoFiles_ascending [of fs] vf s
  have asc: "sorted_wrt (\<lambda>a b. fst a < fst b) (pre @ r # post)" by simp
  then have after: "\<forall>x\<in>set post. i < fst x"
    unfolding i_def by (simp add: sorted_wrt_append)
  have mem: "(j, fs ! j) \<in> set pre \<or> (j, fs ! j) = r \<or> (j, fs ! j) \<in> set post"
    if "j < length fs" "isVideoPath (path (fs ! j))" for j
  proof -
    from that have "(j, fs ! j) \<in> set (videoFiles fs)" by (simp add: videoFiles_member)
    with vf s show ?thesis by auto
  qed
  have max: "\<forall>j<length fs. isVideoPath (path (fs ! j)) \<longrightarrow> bytes (fs ! j) \<le> bytes (fs ! i)"
  proof (intro allI impI)
    fix j assume "j < length fs" "isVideoPath (path (fs ! j))"
    from mem [OF this] lt le ri(2) show "bytes (fs ! j) \<le> bytes (fs ! i)" by force
  qed
  have first: "\<forall>j<i. isVideoPath (path (fs ! j)) \<longrightarrow> bytes (fs ! j) < bytes (fs ! i)"
  proof (intro allI impI)
    fix j assume j: "j < i" "isVideoPath (path (fs ! j))"
    with ri(1) have "j < length fs" by simp
    from mem [OF this j(2)] have "(j, fs ! j) \<in> set pre"
    proof (elim disjE)
      assume "(j, fs ! j) = r"
      then have "i = j" unfolding i_def by (metis fst_conv)
      with j(1) show ?thesis by simp
    next
      assume "(j, fs ! j) \<in> set post"
      with after have "i < j" by force
      with j(1) show ?thesis by simp
    qed
    with lt ri(2) show "bytes (fs ! j) < bytes (fs ! i)" by force
  qed
  have "linkForLargestVideo fs ls = (if i < length ls then ls ! i else ls ! 0)"
    using more by (simp add: linkForLargestVideo_def vf Let_def r_def i_def)
  with ri max first show ?thesis by blast
qed

lemma linkToUnrestrict_no_fileId:
  assumes "files t = Some fs" "\<not> truthy fid"
  shows "linkToUnrestrict fid t = linkForLargestVideo fs (links t)"
  using assms by (cases fid) (simp_all add: linkToUnrestrict_def truthy_def)

text \<open>
  Claim C3, as the code has it. For a ready transfer with more than one file and at
  least one link, and no explicit file id, \<open>getStreamUrl\<close> unrestricts one link. The
  videos are the files whose path ends, in any letter case, in a dot and one of
  \<open>mp4\<close>, \<open>mkv\<close>, \<open>avi\<close>, \<open>mov\<close>, \<open>wmv\<close>, \<open>flv\<close>, \<open>webm\<close>. When no file is a video the link
  is the first one. Otherwise it is the link at the position of the largest video, the
  first of them if several have the largest size, provided the links reach that
  position; when they do not, it is the first link.
\<close>

theorem getStreamUrl_picks_largest_video:
  assumes "truthy (apiKey p)" and "getTorrentInfo svc tid = Inr t"
    and "torrent_status t = ''downloaded''" and "links t \<noteq> []"
    and "files t = Some fs" and "length fs > 1" and "\<not> truthy fid"
  shows "\<exists>l. requests (snd (getStreamUrl p svc tid fid))
              = requests p @ [GetTorrentInfo tid, PostUnrestrictLink l]
           \<and> ((\<forall>f\<in>set fs. \<not> isVideoPath (path f)) \<longrightarrow> l = links t ! 0)
           \<and> ((\<exists>f\<in>set fs. isVideoPath (path f)) \<longrightarrow>
                (\<exists>i<length fs. isVideoPath (path (fs ! i))
                   \<and> (\<forall>j<length fs. isVideoPath (path (fs ! j)) \<longrightarrow> bytes (fs ! j) \<le> bytes (fs ! i))
                   \<and> (\<forall>j<i. isVideoPath (path (fs ! j)) \<longrightarrow> bytes (fs ! j) < bytes (fs ! i))
                   \<and> l = (if i < length (links t) then links t ! i else links t ! 0)))
           \<and> (\<forall>q. isVideoPath q \<longleftrightarrow>
                (\<exists>e\<in>set [''mp4'', ''mkv'', ''avi'', ''mov'', ''wmv'', ''flv'', ''webm''].
                   \<exists>stem. toLowerCase q = stem @ ''.'' @ e))"
proof -
  let ?l = "linkForLargestVideo fs (links t)"
  have l: "linkToUnrestrict fid t = ?l"
    using assms(5,7) by (rule linkToUnrestrict_no_fileId)
  have "requests (snd (getStreamUrl p svc tid fid))
          = requests p @ [GetTorrentInfo tid, PostUnrestrictLink ?l]"
    by (simp add: getStreamUrl_unrestrict [OF assms(1-4)] l sent_def)
  moreover have "(\<forall>f\<in>set fs. \<not> isVideoPath (path f)) \<longrightarrow> ?l = links t ! 0"
    using linkForLargestVideo_none by blast
  moreover have "(\<exists>f\<in>set fs. isVideoPath (path f)) \<longrightarrow>
                (\<exists>i<length fs. isVideoPath (path (fs ! i))
                   \<and> (\<forall>j<length fs. isVideoPath (path (fs ! j)) \<longrightarrow> bytes (fs ! j) \<le> bytes (fs ! i))
                   \<and> (\<forall>j<i. isVideoPath (path (fs ! j)) \<longrightarrow> bytes (fs ! j) < bytes (fs ! i))
                   \<and> ?l = (if i < length (links t) then links t ! i else links t ! 0))"
    using linkForLargestVideo_some [OF assms(6)] by blast
  moreover note isVideoPath_iff
  ultimately show ?thesis by blast
qed

lemma isVideoPath_text_samples:
  "\<not> isVideoPath ''/Docs/release.nfo''" "\<not> isVideoPath ''/Docs/notes.txt''"
  by (simp_all add: isVideoPath_def videoExtensions_def endsWith_def toLowerCase_def
      lowerChar_def code_def)

theorem getStreamUrl_picks_largest_video_witness:
  "truthy (apiKey signedInProvider)
   \<and> torrent_status sampleTorrent = ''downloaded'' \<and> links sampleTorrent \<noteq> []
   \<and> files sampleTorrent = Some sampleFiles \<and> length sampleFiles > 1 \<and> \<not> truthy None
   \<and> (\<exists>f\<in>set sampleFiles. isVideoPath (path f))
   \<and> requests (snd (getStreamUrl signedInProvider (sampleService (Inr sampleUser) sampleTorrent)
                       ''T1'' None))
       = [GetTorrentInfo ''T1'', PostUnrestrictLink ''L2'']
   \<and> files noVideoTorrent = Some textFiles \<and> length textFiles > 1
   \<and> videoFiles textFiles = []
   \<and> requests (snd (getStreamUrl signedInProvider (sampleService (Inr sampleUser) noVideoTorrent)
                       ''T1'' None))
       = [GetTorrentInfo ''T1'', PostUnrestrictLink ''L0'']"
proof -
  let ?svc = "\<lambda>t. sampleService (Inr sampleUser) t"
  have n: "\<not> truthy None" by (simp add: truthy_def)
  have a: "torrent_status sampleTorrent = ''downloaded''" "links sampleTorrent \<noteq> []"
    "files sampleTorrent = Some sampleFiles" "length sampleFiles > 1"
    by (simp_all add: sampleTorrent_def sampleFiles_def)
  have b: "torrent_status noVideoTorrent = ''downloaded''" "links noVideoTorrent \<noteq> []"
    "files noVideoTorrent = Some textFiles" "length textFiles > 1"
    by (simp_all add: noVideoTorrent_def sampleTorrent_def textFiles_def)
  have v: "\<exists>f\<in>set sampleFiles. isVideoPath (path f)"
    by (simp add: sampleFiles_def isVideoPath_samples)
  have w: "\<forall>f\<in>set textFiles. \<not> isVideoPath (path f)"
    by (simp add: textFiles_def isVideoPath_text_samples)
  have l0: "links noVideoTorrent ! 0 = ''L0''" by (simp add: noVideoTorrent_def)
  from getStreamUrl_picks_largest_video
    [OF signedIn_truthy sampleService_info a n, of "Inr sampleUser" "''T1''"]
  obtain l where "requests (snd (getStreamUrl signedInProvider (?svc sampleTorrent) ''T1'' None))
                    = requests signedInProvider @ [GetTorrentInfo ''T1'', PostUnrestrictLink l]"
    by blast
  then have 1: "requests (snd (getStreamUrl signedInProvider (?svc sampleTorrent) ''T1'' None))
                  = [GetTorrentInfo ''T1'', PostUnrestrictLink ''L2'']"
    by (simp add: getStreamUrl_signedIn_sample [OF a(1,2)] linkToUnrestrict_samples)
  from getStreamUrl_picks_largest_video
    [OF signedIn_truthy sampleService_info b n, of "Inr sampleUser" "''T1''"] w
  obtain l' where "requests (snd (getStreamUrl signedInProvider (?svc noVideoTorrent) ''T1'' None))
                    = requests signedInProvider @ [GetTorrentInfo ''T1'', PostUnrestrictLink l']"
    and "l' = links noVideoTorrent ! 0" by blast
  then have 2: "requests (snd (getStreamUrl signedInProvider (?svc noVideoTorrent) ''T1'' None))
                  = [GetTorrentInfo ''T1'', PostUnrestrictLink ''L0'']"
    by (simp only: l0 signedIn_requests append_Nil)
  have x: "videoFiles textFiles = []"
    by (simp add: videoFiles_def textFiles_def isVideoPath_text_samples upt_rec)
  from signedIn_truthy n a b v x 1 2 show ?thesis by blast
qed

theorem getStreamUrl_short_links_counterexample:
  "files shortLinksTorrent = Some twoFiles \<and> length twoFiles > 1
   \<and> \<not> isVideoPath (path (twoFiles ! 0)) \<and> isVideoPath (path (twoFiles ! 1))
   \<and> requests (snd (getStreamUrl signedInProvider
                       (sampleService (Inr sampleUser) shortLinksTorrent) ''T1'' None))
       = [GetTorrentInfo ''T1'', PostUnrestrictLink (links shortLinksTorrent ! 0)]"
proof -
  have a: "torrent_status shortLinksTorrent = ''downloaded''" "links shortLinksTorrent \<noteq> []"
    by (simp_all add: shortLinksTorrent_def sampleTorrent_def)
  have "links shortLinksTorrent ! 0 = ''L0''" by (simp add: shortLinksTorrent_def)
  moreover have "files shortLinksTorrent = Some twoFiles" by (simp add: shortLinksTorrent_def)
  moreover have "length twoFiles > 1" "\<not> isVideoPath (path (twoFiles ! 0))"
    "isVideoPath (path (twoFiles ! 1))"
    by (simp_all add: twoFiles_def isVideoPath_samples)
  ultimately show ?thesis
    by (simp add: getStreamUrl_signedIn_sample [OF a] linkToUnrestrict_samples)
qed

section \<open>Magnet references\<close>

lemma splitOn_append:
  "c \<notin> set a \<Longrightarrow> splitOn c (a @ c # r) = a # splitOn c r"
  by (induction a) auto

lemma isHexDigit_not_amp: "isHexDigit x \<Longrightarrow> x \<noteq> CHR ''&''"
  by (auto simp: isHexDigit_def isDigit_def code_def)

lemma buildMagnetUri_shape:
  "\<exists>rest. buildMagnetUri h name = ''magnet:?'' @ (''xt=urn:btih:'' @ h) @ CHR ''&'' # rest"
  by (simp add: buildMagnetUri_def Let_def)

lemma spec_parseXt_shape:
  assumes "CHR ''&'' \<notin> set h"
  shows "spec_parseXt (''magnet:?'' @ (''xt=urn:btih:'' @ h) @ CHR ''&'' # rest) = Some h"
proof -
  from assms have "CHR ''&'' \<notin> set (''xt=urn:btih:'' @ h)" by simp
  then have "splitOn CHR ''&'' ((''xt=urn:btih:'' @ h) @ CHR ''&'' # rest)
               = (''xt=urn:btih:'' @ h) # splitOn CHR ''&'' rest"
    by (rule splitOn_append)
  then show ?thesis by (simp add: spec_parseXt_def)
qed

text \<open>
  Claim C9. For every content hash of forty hexadecimal digits and every display name,
  reading the \<open>xt\<close> parameter of the magnet URI built from them gives the hash back,
  letter for letter and so also without regard to letter case.
\<close>

theorem magnet_xt_roundtrip:
  assumes "length h = 40" and "list_all isHexDigit h"
  shows "spec_parseXt (buildMagnetUri h name) = Some h
         \<and> (\<exists>h'. spec_parseXt (buildMagnetUri h name) = Some h'
                \<and> toLowerCase h' = toLowerCase h)"
proof -
  from assms(2) have "CHR ''&'' \<notin> set h"
    using isHexDigit_not_amp by (auto simp: list_all_iff)
  from spec_parseXt_shape [OF this] buildMagnetUri_shape [of h name]
  have "spec_parseXt (buildMagnetUri h name) = Some h" by auto
  then show ?thesis by simp
qed

theorem magnet_xt_roundtrip_witness:
  "length ''0123456789ABCDEF0123456789abcdef01234567'' = 40
   \<and> list_all isHexDigit ''0123456789ABCDEF0123456789abcdef01234567''
   \<and> spec_parseXt (buildMagnetUri ''0123456789ABCDEF0123456789abcdef01234567''
                      ''Big Buck Bunny (1080p)'')
       = Some ''0123456789ABCDEF0123456789abcdef01234567''"
proof -
  have a: "length ''0123456789ABCDEF0123456789abcdef01234567'' = 40" by simp
  have b: "list_all isHexDigit ''0123456789ABCDEF0123456789abcdef01234567''"
    by (simp add: isHexDigit_def isDigit_def code_def)
  from a b magnet_xt_roundtrip [OF a b, of "''Big Buck Bunny (1080p)''"]
  show ?thesis by blast
qed

lemma matchInfoHash_Some:
  "matchInfoHash s = Some h \<Longrightarrow> length h = 40 \<and> list_all isHexDigit h"
  by (induction s) (auto split: if_splits)

lemma lowerChar_hex: "isHexDigit c \<Longrightarrow> isHexDigit (lowerChar c)"
proof (cases "65 \<le> code c \<and> code c \<le> 70")
  case True
  then have "code c = 65 \<or> code c = 66 \<or> code c = 67 \<or> code c = 68 \<or> code c = 69
             \<or> code c = 70" by arith
  then have "lowerChar c \<in> set ''abcdef''" by (auto simp: lowerChar_def)
  then show ?thesis by (auto simp: isHexDigit_def isDigit_def code_def)
next
  case False
  assume h: "isHexDigit c"
  with False have "\<not> (65 \<le> code c \<and> code c \<le> 90)"
    by (auto simp: isHexDigit_def isDigit_def)
  then have "lowerChar c = c" unfolding lowerChar_def by (rule if_not_P)
  with h show ?thesis by simp
qed

lemma extractInfoHashFromLink_Some:
  assumes "extractInfoHashFromLink link = Some h"
  shows "length h = 40 \<and> list_all isHexDigit h"
proof -
  from assms obtain l g where "matchInfoHash l = Some g" and h: "h = toLowerCase g"
    by (auto simp: extractInfoHashFromLink_def split: option.splits if_splits)
  from matchInfoHash_Some [OF this(1)] have "length g = 40" "list_all isHexDigit g" by simp_all
  with h show ?thesis by (auto simp: toLowerCase_def list_all_iff lowerChar_hex)
qed

text \<open>Every candidate of the scraper carries a magnet URI whose \<open>xt\<close> parameter is its
  content hash, and its identifier is that hash.\<close>

lemma parseRow_magnet:
  assumes "parseRow r = Some res"
  shows "spec_parseXt (tr_magnetUri res) = Some (infoHash res) \<and> tr_id res = infoHash res"
proof -
  from assms obtain h where e: "extractInfoHashFromLink (torrentLink r) = Some h"
    and m: "tr_magnetUri res = buildMagnetUri h (trim (titleText r))"
    and i: "infoHash res = h" "tr_id res = h"
    by (auto simp: parseRow_def Let_def split: if_splits option.splits)
  from extractInfoHashFromLink_Some [OF e] have "CHR ''&'' \<notin> set h"
    using isHexDigit_not_amp by (auto simp: list_all_iff)
  from spec_parseXt_shape [OF this] buildMagnetUri_shape [of h "trim (titleText r)"]
  have "spec_parseXt (buildMagnetUri h (trim (titleText r))) = Some h" by auto
  with m i show ?thesis by simp
qed

text \<open>The pattern of \<open>extractInfoHashFromLink\<close> looks for the hash between two slashes, as
  in the link of a detail page; a magnet URI built here has none.\<close>

lemma extractInfoHashFromLink_on_magnet:
  "extractInfoHashFromLink
     (Some (buildMagnetUri ''0123456789ABCDEF0123456789abcdef01234567'' ''Big Buck Bunny (1080p)''))
   = None"
  by code_simp

section \<open>Sizes\<close>

lemma takeWhile_dropWhile_run:
  assumes "\<forall>x\<in>set xs. P x" and "ys \<noteq> []" and "\<not> P (hd ys)"
  shows "takeWhile P (xs @ ys) = xs" and "dropWhile P (xs @ ys) = ys"
proof -
  from assms(2,3) obtain y ys' where ys: "ys = y # ys'" and y: "\<not> P y" by (cases ys) auto
  from assms(1) y show "takeWhile P (xs @ ys) = xs" unfolding ys
    by (simp add: takeWhile_append2)
  from assms(1) y show "dropWhile P (xs @ ys) = ys" unfolding ys
    by (simp add: dropWhile_append2)
qed

lemma space_not_num: "isSpace c \<Longrightarrow> \<not> isNumChar c"
  by (auto simp: isSpace_def isNumChar_def isDigit_def code_def)

lemma unit_letter_not_num_space:
  assumes "upperChar a \<in> {CHR ''K'', CHR ''M'', CHR ''G'', CHR ''T''}"
  shows "\<not> isNumChar a \<and> \<not> isSpace a"
proof (cases "97 \<le> code a \<and> code a \<le> 122")
  case True
  then show ?thesis by (auto simp: isNumChar_def isDigit_def isSpace_def code_def)
next
  case False
  then have "upperChar a = a" unfolding upperChar_def by (rule if_not_P)
  with assms have "a \<in> {CHR ''K'', CHR ''M'', CHR ''G'', CHR ''T''}" by simp
  then show ?thesis by (auto simp: isNumChar_def isDigit_def isSpace_def code_def)
qed

lemma unit_shape:
  assumes "(toUpperCase u, k) \<in> set [(''KB'', 1::nat), (''MB'', 2), (''GB'', 3), (''TB'', 4)]"
  shows "length u = 2" and "u \<noteq> []" and "\<not> isNumChar (hd u)" and "\<not> isSpace (hd u)"
    and "toUpperCase u \<in> set units"
    and "map_of multipliers (toUpperCase u) = Some (1024 ^ k)"
proof -
  from assms have up: "toUpperCase u \<in> {''KB'', ''MB'', ''GB'', ''TB''}" by auto
  then have "length (toUpperCase u) = 2" by auto
  then show len: "length u = 2" by (simp add: toUpperCase_def)
  then obtain a b where u: "u = [a, b]"
    by (cases u; cases "tl u") auto
  then show "u \<noteq> []" by simp
  from up u have "upperChar a \<in> {CHR ''K'', CHR ''M'', CHR ''G'', CHR ''T''}"
    by (auto simp: toUpperCase_def)
  from unit_letter_not_num_space [OF this] u
  show "\<not> isNumChar (hd u)" "\<not> isSpace (hd u)" by simp_all
  from up show "toUpperCase u \<in> set units" by (auto simp: units_def)
  from assms show "map_of multipliers (toUpperCase u) = Some (1024 ^ k)"
    by (auto simp: multipliers_def)
qed

lemma sizeMatch_number_unit:
  assumes num: "num \<noteq> []" "\<forall>c\<in>set num. isNumChar c" and ws: "\<forall>c\<in>set ws. isSpace c"
    and u: "length u = 2" "\<not> isNumChar (hd u)" "\<not> isSpace (hd u)" "toUpperCase u \<in> set units"
  shows "sizeMatch (num @ ws @ u) = Some (num, u)"
proof -
  from u(1) have une: "u \<noteq> []" by auto
  have h: "\<not> isNumChar (hd (ws @ u))"
  proof (cases ws)
    case Nil
    with u(2) show ?thesis by simp
  next
    case (Cons w ws')
    with ws have "isSpace w" by simp
    with Cons show ?thesis by (simp add: space_not_num)
  qed
  from une have ne: "ws @ u \<noteq> []" by simp
  have t: "takeWhile isNumChar (num @ ws @ u) = num"
    and d: "dropWhile isNumChar (num @ ws @ u) = ws @ u"
    using takeWhile_dropWhile_run [OF num(2) ne h] by simp_all
  have d2: "dropWhile isSpace (ws @ u) = u"
    using takeWhile_dropWhile_run(2) [OF ws une u(3)] .
  from u(1) have "take 2 u = u" by simp
  with t d d2 num(1) u(4) have "sizeMatchAt (num @ ws @ u) = Some (num, u)"
    by (simp add: sizeMatchAt_def)
  moreover from num(1) obtain c cs where "num @ ws @ u = c # cs" by (cases num) auto
  ultimately show ?thesis by (metis sizeMatch.simps(2) option.simps(5))
qed

lemma digit_is_num: "isDigit c \<Longrightarrow> isNumChar c"
  by (simp add: isNumChar_def)

lemma dot_not_digit: "\<not> isDigit CHR ''.''"
  by (simp add: isDigit_def code_def)

lemma parseFloat_integer:
  assumes "ip \<noteq> []" "\<forall>c\<in>set ip. isDigit c"
  shows "parseFloat ip = toDouble (decimalValue ip [])"
proof -
  from assms(2) have tw: "takeWhile isDigit ip = ip" and dw: "dropWhile isDigit ip = []"
    by simp_all
  show ?thesis unfolding parseFloat_def Let_def tw dw decimalValue_def
    using assms(1) by (simp add: digitsValue_def)
qed

lemma parseFloat_fraction:
  assumes "ip \<noteq> []" "\<forall>c\<in>set ip. isDigit c" "\<forall>c\<in>set fp. isDigit c"
  shows "parseFloat (ip @ ''.'' @ fp) = toDouble (decimalValue ip fp)"
proof -
  have ne: "''.'' @ fp \<noteq> []" by simp
  have h: "\<not> isDigit (hd (''.'' @ fp))" by (simp add: dot_not_digit)
  from takeWhile_dropWhile_run [OF assms(2) ne h]
  have tw: "takeWhile isDigit (ip @ ''.'' @ fp) = ip"
    and dw: "dropWhile isDigit (ip @ ''.'' @ fp) = ''.'' @ fp"
    by simp_all
  from assms(3) have tf: "takeWhile isDigit fp = fp" by simp
  have st: "startsWith (''.'' @ fp) ''.''" "tl (''.'' @ fp) = fp" by simp_all
  show ?thesis unfolding parseFloat_def Let_def tw dw decimalValue_def
    unfolding st if_True tf using assms(1) by simp
qed

lemma decimalValue_nonneg: "0 \<le> decimalValue ip fp"
  by (simp add: decimalValue_def)

text \<open>The multipliers are powers of two, so the product is not rounded again.\<close>

lemma times_binary_multiplier:
  assumes "0 \<le> q"
  shows "times (toDouble q) (1024 ^ k) = exactTimes (toDouble q) (1024 ^ k)"
proof -
  have p: "(1024::rat) ^ k = 2 ^ (10 * k)" by (simp add: power_mult)
  show ?thesis
  proof (cases "toDouble q")
    case (Num v)
    from toDouble_times_pow2 [OF Num assms, of "10 * k"] Num show ?thesis
      unfolding p by (simp add: times_def exactTimes_def)
  qed (simp_all add: times_def exactTimes_def)
qed

lemma parseSize_number_unit:
  assumes "ip \<noteq> []" and "list_all isDigit ip" and "list_all isDigit fp"
    and "list_all isSpace ws"
    and "(toUpperCase u, k) \<in> set [(''KB'', 1::nat), (''MB'', 2), (''GB'', 3), (''TB'', 4)]"
  shows "parseSize (ip @ ws @ u) = exactTimes (toDouble (decimalValue ip [])) (1024 ^ k)"
    and "parseSize (ip @ ''.'' @ fp @ ws @ u)
           = exactTimes (toDouble (decimalValue ip fp)) (1024 ^ k)"
proof -
  from assms(2,3,4) have dip: "\<forall>c\<in>set ip. isDigit c" and dfp: "\<forall>c\<in>set fp. isDigit c"
    and sws: "\<forall>c\<in>set ws. isSpace c" by (simp_all add: list_all_iff)
  note us = unit_shape [OF assms(5)]
  have n1: "\<forall>c\<in>set ip. isNumChar c" using dip digit_is_num by blast
  have n2: "\<forall>c\<in>set (ip @ ''.'' @ fp). isNumChar c"
    using dip dfp digit_is_num by (auto simp: isNumChar_def)
  have ne2: "ip @ ''.'' @ fp \<noteq> []" by simp
  have m1: "sizeMatch (ip @ ws @ u) = Some (ip, u)"
    using sizeMatch_number_unit [OF assms(1) n1 sws us(1,3,4,5)] .
  have m2: "sizeMatch ((ip @ ''.'' @ fp) @ ws @ u) = Some (ip @ ''.'' @ fp, u)"
    using sizeMatch_number_unit [OF ne2 n2 sws us(1,3,4,5)] .
  show "parseSize (ip @ ws @ u) = exactTimes (toDouble (decimalValue ip [])) (1024 ^ k)"
    by (simp only: parseSize_def m1 us(6) parseFloat_integer [OF assms(1) dip]
        option.case prod.case times_binary_multiplier [OF decimalValue_nonneg])
  have "parseSize ((ip @ ''.'' @ fp) @ ws @ u)
          = exactTimes (toDouble (decimalValue ip fp)) (1024 ^ k)"
    by (simp only: parseSize_def m2 us(6) parseFloat_fraction [OF assms(1) dip dfp]
        option.case prod.case times_binary_multiplier [OF decimalValue_nonneg])
  then show "parseSize (ip @ ''.'' @ fp @ ws @ u)
          = exactTimes (toDouble (decimalValue ip fp)) (1024 ^ k)" by simp
qed

text \<open>
  Claim C8, as the code has it. For a size string made of a decimal number (digits,
  optionally a dot and further digits), optional white space and one of the units KB,
  MB, GB, TB in any letter case, \<open>parseSize\<close> yields the double nearest to the number,
  times 1024, 1024 squared, 1024 cubed or 1024 to the fourth without further rounding
  (an infinity when that is beyond the doubles). The result is the number times the
  multiplier when the number is itself a double: \<open>1.5 GB\<close> yields 1.5 times 1024 cubed
  and \<open>700 MB\<close> yields 700 times 1024 squared.
\<close>

theorem parseSize_binary_units_of_nearest_double:
  assumes "ip \<noteq> []" and "list_all isDigit ip" and "list_all isDigit fp"
    and "list_all isSpace ws"
    and "(toUpperCase u, k) \<in> set [(''KB'', 1::nat), (''MB'', 2), (''GB'', 3), (''TB'', 4)]"
  shows "parseSize (ip @ ws @ u) = exactTimes (toDouble (decimalValue ip [])) (1024 ^ k)
         \<and> parseSize (ip @ ''.'' @ fp @ ws @ u)
             = exactTimes (toDouble (decimalValue ip fp)) (1024 ^ k)
         \<and> (toDouble (decimalValue ip fp) = Num (decimalValue ip fp)
              \<and> decimalValue ip fp * 1024 ^ k < 2 ^ 1024 \<longrightarrow>
            parseSize (ip @ ''.'' @ fp @ ws @ u) = Num (decimalValue ip fp * 1024 ^ k))"
  using parseSize_number_unit [OF assms] by (simp add: exactTimes_def)

lemma digitsValue_samples:
  "digitsValue 10 ''1'' = 1" "digitsValue 10 ''5'' = 5" "digitsValue 10 ''700'' = 700"
  "digitsValue 10 [] = 0"
  by (simp_all add: digitsValue_def digitVal_def isDigit_def code_def)

lemma decimalValue_samples:
  "decimalValue ''1'' ''5'' = 3 / 2" "decimalValue ''700'' [] = 700"
  "decimalValue ''1'' ''1'' = 11 / 10"
  by (simp_all add: decimalValue_def digitsValue_samples)

lemma toDouble_samples: "toDouble (3 / 2) = Num (3 / 2)" "toDouble 700 = Num 700"
proof -
  from toDouble_dyadic [of 3 1] show "toDouble (3 / 2) = Num (3 / 2)" by simp
  show "toDouble 700 = Num 700" by (simp add: toDouble_numeral)
qed

lemma size_samples:
  "''1'' \<noteq> []" "list_all isDigit ''1''" "list_all isDigit ''5''" "list_all isSpace '' ''"
  "list_all isDigit ''700''" "''700'' \<noteq> []" "list_all isDigit []"
  "(toUpperCase ''GB'', 3) \<in> set [(''KB'', 1::nat), (''MB'', 2), (''GB'', 3), (''TB'', 4)]"
  "(toUpperCase ''mb'', 2) \<in> set [(''KB'', 1::nat), (''MB'', 2), (''GB'', 3), (''TB'', 4)]"
  "(toUpperCase ''MB'', 2) \<in> set [(''KB'', 1::nat), (''MB'', 2), (''GB'', 3), (''TB'', 4)]"
  by (simp_all add: isDigit_def isSpace_def code_def toUpperCase_def upperChar_def)

theorem parseSize_binary_units_of_nearest_double_witness:
  "''1'' \<noteq> [] \<and> list_all isDigit ''1'' \<and> list_all isDigit ''5'' \<and> list_all isSpace '' ''
   \<and> (toUpperCase ''GB'', 3) \<in> set [(''KB'', 1::nat), (''MB'', 2), (''GB'', 3), (''TB'', 4)]
   \<and> toDouble (decimalValue ''1'' ''5'') = Num (decimalValue ''1'' ''5'')
   \<and> decimalValue ''1'' ''5'' * 1024 ^ 3 < 2 ^ 1024
   \<and> parseSize ''1.5 GB'' = Num (3 / 2 * 1024 ^ 3)
   \<and> list_all isDigit ''700''
   \<and> (toUpperCase ''mb'', 2) \<in> set [(''KB'', 1::nat), (''MB'', 2), (''GB'', 3), (''TB'', 4)]
   \<and> parseSize ''700 mb'' = Num (700 * 1024 ^ 2)
   \<and> (toUpperCase ''MB'', 2) \<in> set [(''KB'', 1::nat), (''MB'', 2), (''GB'', 3), (''TB'', 4)]
   \<and> parseSize ''700 MB'' = Num (700 * 1024 ^ 2)"
proof -
  note a = size_samples
  have d: "toDouble (decimalValue ''1'' ''5'') = Num (decimalValue ''1'' ''5'')"
    "decimalValue ''1'' ''5'' * 1024 ^ 3 < 2 ^ 1024"
    by (simp_all add: decimalValue_samples toDouble_samples)
  from parseSize_binary_units_of_nearest_double [OF a(1,2,3,4,8)] d
  have "parseSize (''1'' @ ''.'' @ ''5'' @ '' '' @ ''GB'')
          = Num (decimalValue ''1'' ''5'' * 1024 ^ 3)"
    by blast
  then have 1: "parseSize ''1.5 GB'' = Num (3 / 2 * 1024 ^ 3)"
    by (simp add: decimalValue_samples)
  from parseSize_binary_units_of_nearest_double [OF a(6,5,7,4,9)]
  have 2: "parseSize ''700 mb'' = Num (700 * 1024 ^ 2)"
    by (simp add: decimalValue_samples toDouble_samples exactTimes_def)
  from parseSize_binary_units_of_nearest_double [OF a(6,5,7,4,10)]
  have 3: "parseSize ''700 MB'' = Num (700 * 1024 ^ 2)"
    by (simp add: decimalValue_samples toDouble_samples exactTimes_def)
  from a d 1 2 3 show ?thesis by blast
qed

text \<open>
  The number 1.1 is not a double. The nearest double is \<open>4953959590107546 / 2^52\<close>, a
  little above it, and \<open>1.1 GB\<close> yields that times 1024 cubed, which is not 1.1 times
  1024 cubed.
\<close>

theorem parseSize_inexact_counterexample:
  "parseSize ''1.1 GB'' = Num (2476979795053773 / 2097152)
   \<and> (2476979795053773 / 2097152 :: rat) \<noteq> 11 / 10 * 1024 ^ 3
   \<and> parseSize ''1.1 GB'' \<noteq> Num (11 / 10 * 1024 ^ 3)"
proof -
  from parseSize_number_unit(2) [OF size_samples(1,2,2,4,8)]
  have "parseSize ''1.1 GB'' = Num (2476979795053773 / 2097152)"
    by (simp add: decimalValue_samples toDouble_11_10 exactTimes_def)
  then show ?thesis by simp
qed

end
